theory Spec2Isabelle
  imports Complex_Main "HOL-Library.Word" "HOL-Library.Multiset"
begin

section \<open>CPU scheduling simulator: the schedulers of schedulers.go\<close>

text \<open>
  The Go source declares every time value as \<open>int64\<close>. They are 64-bit words here:
  \<open>+\<close> and \<open>-\<close> wrap around as Go's do, and the comparisons of the source are the
  signed ones (\<open><s\<close>, \<open>\<le>s\<close>); \<open>sint\<close> reads a word as the integer Go prints.
\<close>

type_synonym int64 = "64 word"

subsection \<open>Data model\<close>

text \<open>\<open>type Process struct\<close>. \<open>Turnaround\<close>, \<open>Waiting\<close> and \<open>Burst\<close> are Go \<open>int\<close>
  fields that no scheduler reads or writes.\<close>

record Process =
  ProcessID :: string
  ArrivalTime :: int64
  BurstDuration :: int64
  Priority :: int64
  Completed :: bool
  Turnaround :: int64
  Waiting :: int64
  Burst :: int64

text \<open>\<open>type TimeSlice struct\<close>: one segment of the Gantt chart.\<close>

record TimeSlice =
  PID :: string
  Start :: int64
  Stop :: int64

text \<open>
  One row of the \<open>schedule\<close> table. The source stores the seven values as strings made by
  \<open>fmt.Sprint\<close>; the row keeps the values themselves, in the source's column order.
\<close>

record row =
  row_pid :: string
  row_priority :: int64
  row_burst :: int64
  row_arrival :: int64
  row_waiting :: int64
  row_turnaround :: int64
  row_completion :: int64

subsection \<open>float64 aggregates\<close>

text \<open>
  The totals and averages of the source are \<open>float64\<close>. A finite float is modelled by the
  real number it stands for (rounding is not modelled); the three special results that a
  float division can produce are modelled, since Go's float division never panics. No
  negative zero arises: the source only converts integers and adds.
\<close>

datatype float64 = Num real | PosInf | NegInf | NaN

text \<open>\<open>x / y\<close> on two finite floats.\<close>

definition fdiv :: "real \<Rightarrow> real \<Rightarrow> float64" where
  "fdiv x y =
     (if y \<noteq> 0 then Num (x / y)
      else if x = 0 then NaN
      else if 0 < x then PosInf
      else NegInf)"

text \<open>\<open>float64(x)\<close> for an \<open>int64\<close>.\<close>

definition float64_of :: "int64 \<Rightarrow> real" where
  "float64_of x = real_of_int (sint x)"

subsection \<open>What a scheduler writes\<close>

text \<open>
  Every scheduler writes to an \<open>io.Writer\<close>. The writer is modelled by the list of things
  written, in order. \<open>outputTitle\<close>, \<open>outputGantt\<close> and \<open>outputSchedule\<close> are renderers
  defined outside schedulers.go: a call is recorded with its arguments. The \<open>Fprintf\<close> lines of
  \<open>SJFPrioritySchedule\<close> are recorded with the values they format.
\<close>

datatype written =
    Title string
  | GanttChart "TimeSlice list"
  | ScheduleTable "row list" float64 float64 float64
  | Banner string
  | CompletedLine string int64 int64 int64
  | AvgWaitLine float64
  | AvgTurnaroundLine float64
  | ThroughputLine float64

text \<open>The timeline, the metric rows and the completion lines found in what was written.\<close>

fun timeline :: "written list \<Rightarrow> TimeSlice list" where
  "timeline [] = []"
| "timeline (GanttChart g # os) = g @ timeline os"
| "timeline (_ # os) = timeline os"

fun metric_rows :: "written list \<Rightarrow> row list" where
  "metric_rows [] = []"
| "metric_rows (ScheduleTable rs _ _ _ # os) = rs @ metric_rows os"
| "metric_rows (_ # os) = metric_rows os"

text \<open>The aggregates written, in order: average wait, average turnaround, throughput.\<close>

fun aggregates :: "written list \<Rightarrow> float64 list" where
  "aggregates [] = []"
| "aggregates (ScheduleTable _ a b c # os) = [a, b, c] @ aggregates os"
| "aggregates (AvgWaitLine a # os) = a # aggregates os"
| "aggregates (AvgTurnaroundLine a # os) = a # aggregates os"
| "aggregates (ThroughputLine a # os) = a # aggregates os"
| "aggregates (_ # os) = aggregates os"

text \<open>The completion lines written: process id, completion time, wait, turnaround.\<close>

fun completion_lines :: "written list \<Rightarrow> (string \<times> int64 \<times> int64 \<times> int64) list" where
  "completion_lines [] = []"
| "completion_lines (CompletedLine pid c w t # os) = (pid, c, w, t) # completion_lines os"
| "completion_lines (_ # os) = completion_lines os"

fun is_GanttChart :: "written \<Rightarrow> bool" where
  "is_GanttChart (GanttChart _) = True"
| "is_GanttChart _ = False"

fun is_ScheduleTable :: "written \<Rightarrow> bool" where
  "is_ScheduleTable (ScheduleTable _ _ _ _) = True"
| "is_ScheduleTable _ = False"

fun is_CompletedLine :: "written \<Rightarrow> bool" where
  "is_CompletedLine (CompletedLine _ _ _ _) = True"
| "is_CompletedLine _ = False"

subsection \<open>sort.Slice\<close>

text \<open>
  \<open>sort.Slice(xs, less)\<close> of Go's standard library. Go promises a permutation of \<open>xs\<close>
  that is ordered by \<open>less\<close> and leaves the order of elements that compare equal open. The
  model is the insertion sort that the library runs on slices of fewer than 12 elements.
  The general theorems below rest on \<open>mset_sort_Slice\<close> and \<open>sorted_sort_Slice\<close> only.
\<close>

fun insert_by :: "('a \<Rightarrow> 'a \<Rightarrow> bool) \<Rightarrow> 'a \<Rightarrow> 'a list \<Rightarrow> 'a list" where
  "insert_by lt x [] = [x]"
| "insert_by lt x (y # ys) = (if lt x y then x # y # ys else y # insert_by lt x ys)"

definition sort_Slice :: "('a \<Rightarrow> 'a \<Rightarrow> bool) \<Rightarrow> 'a list \<Rightarrow> 'a list" where
  "sort_Slice lt xs = foldl (\<lambda>acc x. insert_by lt x acc) [] xs"

subsection \<open>Process literals\<close>

text \<open>The Go literal \<open>Process{ProcessID: pid, ArrivalTime: a, BurstDuration: b, Priority: pr}\<close>:
  the fields left out take their zero values.\<close>

definition proc :: "string \<Rightarrow> int64 \<Rightarrow> int64 \<Rightarrow> int64 \<Rightarrow> Process" where
  "proc pid a b pr = \<lparr>ProcessID = pid, ArrivalTime = a, BurstDuration = b, Priority = pr,
     Completed = False, Turnaround = 0, Waiting = 0, Burst = 0\<rparr>"

subsection \<open>FCFSSchedule\<close>

text \<open>The variables of \<open>FCFSSchedule\<close> that live across loop iterations.\<close>

record fcfs_vars =
  fcfs_serviceTime :: int64
  fcfs_totalWait :: real
  fcfs_totalTurnaround :: real
  fcfs_lastCompletion :: real
  fcfs_waitingTime :: int64
  fcfs_schedule :: "row list"
  fcfs_gantt :: "TimeSlice list"

definition fcfs_init :: fcfs_vars where
  "fcfs_init = \<lparr>fcfs_serviceTime = 0, fcfs_totalWait = 0, fcfs_totalTurnaround = 0,
     fcfs_lastCompletion = 0, fcfs_waitingTime = 0, fcfs_schedule = [], fcfs_gantt = []\<rparr>"

text \<open>One iteration of \<open>for i := range processes\<close>, on \<open>processes[i] = p\<close>.\<close>

definition fcfs_step :: "fcfs_vars \<Rightarrow> Process \<Rightarrow> fcfs_vars" where
  "fcfs_step v p =
     (let waitingTime = (if 0 <s ArrivalTime p then fcfs_serviceTime v - ArrivalTime p
                         else fcfs_waitingTime v);
          totalWait = fcfs_totalWait v + float64_of waitingTime;
          start = waitingTime + ArrivalTime p;
          turnaround = BurstDuration p + waitingTime;
          totalTurnaround = fcfs_totalTurnaround v + float64_of turnaround;
          completion = BurstDuration p + ArrivalTime p + waitingTime;
          lastCompletion = float64_of completion;
          r = \<lparr>row_pid = ProcessID p, row_priority = Priority p,
               row_burst = BurstDuration p, row_arrival = ArrivalTime p,
               row_waiting = waitingTime, row_turnaround = turnaround,
               row_completion = completion\<rparr>;
          serviceTime = fcfs_serviceTime v + BurstDuration p
      in \<lparr>fcfs_serviceTime = serviceTime, fcfs_totalWait = totalWait,
          fcfs_totalTurnaround = totalTurnaround, fcfs_lastCompletion = lastCompletion,
          fcfs_waitingTime = waitingTime, fcfs_schedule = fcfs_schedule v @ [r],
          fcfs_gantt = fcfs_gantt v @
            [\<lparr>PID = ProcessID p, Start = start, Stop = serviceTime\<rparr>]\<rparr>)"

definition fcfs_loop :: "Process list \<Rightarrow> fcfs_vars" where
  "fcfs_loop processes = foldl fcfs_step fcfs_init processes"

definition FCFSSchedule :: "string \<Rightarrow> Process list \<Rightarrow> written list" where
  "FCFSSchedule title processes =
     (let v = fcfs_loop processes;
          count = real (length processes);
          aveWait = fdiv (fcfs_totalWait v) count;
          aveTurnaround = fdiv (fcfs_totalTurnaround v) count;
          aveThroughput = fdiv count (fcfs_lastCompletion v)
      in [Title title, GanttChart (fcfs_gantt v),
          ScheduleTable (fcfs_schedule v) aveWait aveTurnaround aveThroughput])"

subsection \<open>SJFSchedule\<close>

text \<open>\<open>func max(a, b int64) int64\<close> of the source.\<close>

definition max_int64 :: "int64 \<Rightarrow> int64 \<Rightarrow> int64" where
  "max_int64 a b = (if b <s a then a else b)"

record sjf_vars =
  sjf_currentTime :: int64
  sjf_totalWait :: real
  sjf_totalTurnaround :: real
  sjf_schedule :: "row list"
  sjf_gantt :: "TimeSlice list"

definition sjf_init :: sjf_vars where
  "sjf_init = \<lparr>sjf_currentTime = 0, sjf_totalWait = 0, sjf_totalTurnaround = 0,
     sjf_schedule = [], sjf_gantt = []\<rparr>"

text \<open>One iteration of \<open>for i, process := range processes\<close>.\<close>

definition sjf_step :: "sjf_vars \<Rightarrow> Process \<Rightarrow> sjf_vars" where
  "sjf_step v process =
     (let waitTime = max_int64 0 (sjf_currentTime v - ArrivalTime process);
          currentTime = max_int64 (sjf_currentTime v) (ArrivalTime process)
                          + BurstDuration process;
          turnaroundTime = currentTime - ArrivalTime process;
          r = \<lparr>row_pid = ProcessID process, row_priority = Priority process,
               row_burst = BurstDuration process, row_arrival = ArrivalTime process,
               row_waiting = waitTime, row_turnaround = turnaroundTime,
               row_completion = currentTime\<rparr>
      in \<lparr>sjf_currentTime = currentTime,
          sjf_totalWait = sjf_totalWait v + float64_of waitTime,
          sjf_totalTurnaround = sjf_totalTurnaround v + float64_of turnaroundTime,
          sjf_schedule = sjf_schedule v @ [r],
          sjf_gantt = sjf_gantt v @
            [\<lparr>PID = ProcessID process, Start = currentTime - BurstDuration process,
              Stop = currentTime\<rparr>]\<rparr>)"

text \<open>Step 1 of the source: \<open>sort.Slice\<close> by burst time.\<close>

definition sjf_sorted :: "Process list \<Rightarrow> Process list" where
  "sjf_sorted processes =
     sort_Slice (\<lambda>p q. BurstDuration p <s BurstDuration q) processes"

definition sjf_loop :: "Process list \<Rightarrow> sjf_vars" where
  "sjf_loop processes = foldl sjf_step sjf_init processes"

definition SJFSchedule :: "string \<Rightarrow> Process list \<Rightarrow> written list" where
  "SJFSchedule title processes0 =
     (let processes = sjf_sorted processes0;
          v = sjf_loop processes;
          aveWait = fdiv (sjf_totalWait v) (real (length processes));
          aveTurnaround = fdiv (sjf_totalTurnaround v) (real (length processes));
          throughput = fdiv (real (length processes)) (float64_of (sjf_currentTime v))
      in [Title title, GanttChart (sjf_gantt v),
          ScheduleTable (sjf_schedule v) aveWait aveTurnaround throughput])"

subsection \<open>SJFPrioritySchedule\<close>

text \<open>
  The variables of \<open>SJFPrioritySchedule\<close>: the clock, the two totals, the counter
  \<open>completed\<close>, the process slice (whose \<open>Completed\<close> flags the loop sets) and what has been
  written so far.
\<close>

record pri_vars =
  pri_currentTime :: int64
  pri_totalWait :: real
  pri_totalTurnaround :: real
  pri_completed :: nat
  pri_processes :: "Process list"
  pri_written :: "written list"

text \<open>The comparison given to \<open>sort.Slice(available, ...)\<close>: burst duration, then priority.\<close>

definition pri_less :: "Process list \<Rightarrow> nat \<Rightarrow> nat \<Rightarrow> bool" where
  "pri_less processes a b =
     (if BurstDuration (processes ! a) = BurstDuration (processes ! b)
      then Priority (processes ! a) <s Priority (processes ! b)
      else BurstDuration (processes ! a) <s BurstDuration (processes ! b))"

text \<open>The indices of the processes that have arrived and are not completed, sorted.\<close>

definition pri_available :: "Process list \<Rightarrow> int64 \<Rightarrow> nat list" where
  "pri_available processes currentTime =
     (let available = filter (\<lambda>i. \<not> Completed (processes ! i) \<and>
                                    ArrivalTime (processes ! i) \<le>s currentTime)
                             [0..<length processes]
      in sort_Slice (pri_less processes) available)"

text \<open>The rest of an iteration, once \<open>idx := available[0]\<close> is chosen.\<close>

definition pri_run :: "pri_vars \<Rightarrow> nat \<Rightarrow> pri_vars" where
  "pri_run v idx =
     (let p = pri_processes v ! idx;
          waitTime = pri_currentTime v - ArrivalTime p;
          turnaroundTime = waitTime + BurstDuration p;
          currentTime = pri_currentTime v + BurstDuration p
      in \<lparr>pri_currentTime = currentTime,
          pri_totalWait = pri_totalWait v + float64_of waitTime,
          pri_totalTurnaround = pri_totalTurnaround v + float64_of turnaroundTime,
          pri_completed = pri_completed v + 1,
          pri_processes = (pri_processes v)[idx := p\<lparr>Completed := True\<rparr>],
          pri_written = pri_written v @
            [CompletedLine (ProcessID p) currentTime waitTime turnaroundTime]\<rparr>)"

text \<open>\<open>for completed < len(processes)\<close>. The loop need not end: \<open>None\<close> is a run that
  never leaves it.\<close>

partial_function (option) pri_loop :: "pri_vars \<Rightarrow> pri_vars option" where
  "pri_loop v =
     (if pri_completed v < length (pri_processes v) then
        (let available = pri_available (pri_processes v) (pri_currentTime v)
         in if length available = 0
            then pri_loop (v\<lparr>pri_currentTime := pri_currentTime v + 1\<rparr>)
            else pri_loop (pri_run v (available ! 0)))
      else Some v)"

definition pri_init :: "string \<Rightarrow> Process list \<Rightarrow> pri_vars" where
  "pri_init title processes =
     \<lparr>pri_currentTime = 0, pri_totalWait = 0, pri_totalTurnaround = 0, pri_completed = 0,
      pri_processes = sort_Slice (\<lambda>p q. ArrivalTime p <s ArrivalTime q) processes,
      pri_written = [Banner title]\<rparr>"

definition SJFPrioritySchedule :: "string \<Rightarrow> Process list \<Rightarrow> written list option" where
  "SJFPrioritySchedule title processes =
     (case pri_loop (pri_init title processes) of
        None \<Rightarrow> None
      | Some v \<Rightarrow>
          (let count = real (length (pri_processes v));
               avgWait = fdiv (pri_totalWait v) count;
               avgTurnaround = fdiv (pri_totalTurnaround v) count;
               throughput = fdiv count (float64_of (pri_currentTime v))
           in Some (pri_written v @
                [AvgWaitLine avgWait, AvgTurnaroundLine avgTurnaround,
                 ThroughputLine throughput])))"

subsection \<open>RRSchedule\<close>

text \<open>\<open>func RRSchedule(w io.Writer, title string, processes []Process) {}\<close>: the body is
  empty, nothing is written.\<close>

definition RRSchedule :: "string \<Rightarrow> Process list \<Rightarrow> written list" where
  "RRSchedule title processes = []"

subsection \<open>Example states\<close>

text \<open>The run of \<open>SJFPrioritySchedule\<close> on the processes A (arrival 0, burst 5), B (1, 3) and
  C (2, 1), at the moment A has completed: the clock is 5, B and C have arrived.\<close>

definition pri_example :: pri_vars where
  "pri_example =
     \<lparr>pri_currentTime = 5, pri_totalWait = 0, pri_totalTurnaround = 5, pri_completed = 1,
      pri_processes =
        [(proc ''A'' 0 5 1)\<lparr>Completed := True\<rparr>, proc ''B'' 1 3 2, proc ''C'' 2 1 3],
      pri_written = [Banner ''SJFP'', CompletedLine ''A'' 5 0 5]\<rparr>"

text \<open>The counter \<open>completed\<close> counts the processes whose \<open>Completed\<close> flag is set: true of
  a run that starts with no flag set.\<close>

definition pri_counted :: "pri_vars \<Rightarrow> bool" where
  "pri_counted v = (pri_completed v = length (filter Completed (pri_processes v)))"

subsection \<open>SJF as the specification words it\<close>

text \<open>The larger of two \<open>int64\<close> values, read as signed integers.\<close>

definition smax :: "int64 \<Rightarrow> int64 \<Rightarrow> int64" where
  "smax a b = (if sint a \<le> sint b then b else a)"

text \<open>
  The rows the specification describes for a list already in execution order:
  \<open>waitTime = max(0, currentTime - arrivalTime)\<close>,
  \<open>currentTime = max(currentTime, arrivalTime) + burstDuration\<close>,
  \<open>turnaround = currentTime - arrivalTime\<close>, in \<open>int64\<close> arithmetic.
\<close>

fun sjf_spec_rows :: "int64 \<Rightarrow> Process list \<Rightarrow> row list" where
  "sjf_spec_rows currentTime [] = []"
| "sjf_spec_rows currentTime (p # ps) =
     (let waitTime = smax 0 (currentTime - ArrivalTime p);
          currentTime' = smax currentTime (ArrivalTime p) + BurstDuration p;
          turnaround = currentTime' - ArrivalTime p
      in \<lparr>row_pid = ProcessID p, row_priority = Priority p, row_burst = BurstDuration p,
           row_arrival = ArrivalTime p, row_waiting = waitTime, row_turnaround = turnaround,
           row_completion = currentTime'\<rparr> # sjf_spec_rows currentTime' ps)"

subsection \<open>Example input\<close>

text \<open>The example of the specification: A (arrival 0, burst 5, priority 1), B (1, 3, 2),
  C (2, 1, 3).\<close>

definition spec_example :: "Process list" where
  "spec_example = [proc ''A'' 0 5 1, proc ''B'' 1 3 2, proc ''C'' 2 1 3]"

subsection \<open>Valid input, timelines\<close>

text \<open>A valid process of the data model: arrival time at least 0, burst duration above 0.\<close>

definition valid_process :: "Process \<Rightarrow> bool" where
  "valid_process p = (0 \<le>s ArrivalTime p \<and> 0 <s BurstDuration p)"

text \<open>The sum of all arrival times and burst durations, as integers. No clock of a run on
  valid input exceeds it; below \<open>2 ^ 63\<close> no \<open>int64\<close> operation of such a run wraps around.\<close>

definition total_time :: "Process list \<Rightarrow> int" where
  "total_time ps = (\<Sum>p\<leftarrow>ps. sint (ArrivalTime p) + sint (BurstDuration p))"

definition within_int64 :: "Process list \<Rightarrow> bool" where
  "within_int64 ps = (total_time ps < 2 ^ 63)"

text \<open>The time a timeline covers: the sum of \<open>stop - start\<close>.\<close>

definition covered :: "TimeSlice list \<Rightarrow> int" where
  "covered ts = (\<Sum>t\<leftarrow>ts. sint (Stop t) - sint (Start t))"

text \<open>No two segments of a timeline overlap: of any two, one stops before the other starts.\<close>

fun disjoint_slices :: "TimeSlice list \<Rightarrow> bool" where
  "disjoint_slices [] = True"
| "disjoint_slices (t # ts) =
     (list_all (\<lambda>u. Stop t \<le>s Start u \<or> Stop u \<le>s Start t) ts \<and> disjoint_slices ts)"

section \<open>Properties\<close>

lemmas eval_defs = proc_def sort_Slice_def word_sless_alt word_sle_eq Let_def fdiv_def
  float64_of_def max_int64_def

subsection \<open>Empty input\<close>

lemma FCFSSchedule_Nil:
  "FCFSSchedule title [] = [Title title, GanttChart [], ScheduleTable [] NaN NaN NaN]"
  by (simp add: FCFSSchedule_def fcfs_loop_def fcfs_init_def fdiv_def)

lemma SJFSchedule_Nil:
  "SJFSchedule title [] = [Title title, GanttChart [], ScheduleTable [] NaN NaN NaN]"
  by (simp add: SJFSchedule_def sjf_sorted_def sort_Slice_def sjf_loop_def sjf_init_def
      fdiv_def float64_of_def)

lemma SJFPrioritySchedule_Nil:
  "SJFPrioritySchedule title [] =
     Some [Banner title, AvgWaitLine NaN, AvgTurnaroundLine NaN, ThroughputLine NaN]"
  by (simp add: SJFPrioritySchedule_def pri_init_def sort_Slice_def pri_loop.simps
      fdiv_def float64_of_def)

text \<open>
  Claim C8, as stated: on zero processes each algorithm guards the averages and either refuses
  to run or returns a zero-valued report. It fails: \<open>FCFSSchedule\<close> on the empty slice
  writes its report, and the three aggregates in it are not zero.
\<close>

theorem empty_input_unguarded_counterexample:
  "\<not> (FCFSSchedule ''FCFS'' [] = [] \<or>
      aggregates (FCFSSchedule ''FCFS'' []) = [Num 0, Num 0, Num 0])"
  by (simp add: FCFSSchedule_Nil)

text \<open>
  Claim C8, amended: on zero processes no algorithm guards the divisions by the process
  count. \<open>FCFSSchedule\<close>, \<open>SJFSchedule\<close> and \<open>SJFPrioritySchedule\<close> each return normally and
  report average wait, average turnaround and throughput as \<open>0 / 0\<close>, which is NaN.
\<close>

theorem empty_input_yields_NaN:
  "aggregates (FCFSSchedule title []) = [NaN, NaN, NaN] \<and>
   aggregates (SJFSchedule title []) = [NaN, NaN, NaN] \<and>
   (\<exists>out. SJFPrioritySchedule title [] = Some out \<and> aggregates out = [NaN, NaN, NaN])"
  by (simp add: FCFSSchedule_Nil SJFSchedule_Nil SJFPrioritySchedule_Nil)

subsection \<open>FCFS waiting time\<close>

text \<open>What an iteration of \<open>FCFSSchedule\<close> leaves in \<open>waitingTime\<close>: the difference
  \<open>serviceTime - arrivalTime\<close> when the process arrives after time 0, and otherwise the value
  of the previous iteration (0 before the first).\<close>

lemma fcfs_waiting_carry_over:
  "fcfs_waitingTime (fcfs_step v p) =
     (if 0 <s ArrivalTime p then fcfs_serviceTime v - ArrivalTime p else fcfs_waitingTime v)"
  "fcfs_waitingTime fcfs_init = 0"
  by (simp_all add: fcfs_step_def fcfs_init_def Let_def)

text \<open>
  Claim C2: in \<open>FCFSSchedule\<close> a process with \<open>arrivalTime > 0\<close> waits
  \<open>max(0, serviceTime - arrivalTime)\<close>. The source assigns \<open>serviceTime - arrivalTime\<close>
  without the clamp that \<open>SJFSchedule\<close> applies. For the single process
  \<open>{A, arrival 5, burst 3}\<close> the clock is 0 and the clamp gives 0, but the row reports a wait
  of -5 and a turnaround of -2, and the segment runs from 0 to 3, before the arrival.
\<close>

theorem fcfs_waiting_not_clamped:
  "map (\<lambda>r. sint (row_waiting r))
     (metric_rows (FCFSSchedule ''FCFS'' [proc ''A'' 5 3 1])) = [- 5] \<and>
   map (\<lambda>r. sint (row_turnaround r))
     (metric_rows (FCFSSchedule ''FCFS'' [proc ''A'' 5 3 1])) = [- 2] \<and>
   timeline (FCFSSchedule ''FCFS'' [proc ''A'' 5 3 1]) = [\<lparr>PID = ''A'', Start = 0, Stop = 3\<rparr>] \<and>
   max 0 (sint (0 :: int64) - sint (ArrivalTime (proc ''A'' 5 3 1))) = 0"
  by (simp add: FCFSSchedule_def fcfs_loop_def fcfs_init_def fcfs_step_def eval_defs)

subsection \<open>sort.Slice returns an ordered permutation\<close>

lemma mset_insert_by: "mset (insert_by lt x xs) = add_mset x (mset xs)"
  by (induction xs) auto

lemma mset_foldl_insert_by:
  "mset (foldl (\<lambda>acc x. insert_by lt x acc) acc xs) = mset acc + mset xs"
  by (induction xs arbitrary: acc) (auto simp: mset_insert_by)

lemma mset_sort_Slice: "mset (sort_Slice lt xs) = mset xs"
  by (simp add: sort_Slice_def mset_foldl_insert_by)

lemma set_sort_Slice: "set (sort_Slice lt xs) = set xs"
  using mset_sort_Slice [of lt xs] by (metis set_mset_mset)

lemma length_sort_Slice: "length (sort_Slice lt xs) = length xs"
  using mset_sort_Slice [of lt xs] by (metis size_mset)

lemma sorted_insert_by:
  assumes trans: "\<And>a b c. lt a b \<Longrightarrow> lt b c \<Longrightarrow> lt a c"
    and asym: "\<And>a b. lt a b \<Longrightarrow> \<not> lt b a"
    and "sorted_wrt (\<lambda>a b. \<not> lt b a) xs"
  shows "sorted_wrt (\<lambda>a b. \<not> lt b a) (insert_by lt x xs)"
  using assms(3)
proof (induction xs)
  case Nil
  then show ?case by simp
next
  case (Cons y ys)
  show ?case
  proof (cases "lt x y")
    case True
    have "\<not> lt z x" if "z \<in> set (y # ys)" for z
    proof
      assume "lt z x"
      then have "lt z y" using True trans by blast
      moreover have "\<not> lt y y" using asym by blast
      ultimately show False using that Cons.prems by auto
    qed
    then show ?thesis using True Cons.prems by simp
  next
    case False
    have "set (insert_by lt x ys) = insert x (set ys)"
      using mset_insert_by [of lt x ys] by (metis set_mset_add_mset_insert set_mset_mset)
    then show ?thesis using False Cons by auto
  qed
qed

lemma sorted_foldl_insert_by:
  assumes "\<And>a b c. lt a b \<Longrightarrow> lt b c \<Longrightarrow> lt a c" "\<And>a b. lt a b \<Longrightarrow> \<not> lt b a"
    and "sorted_wrt (\<lambda>a b. \<not> lt b a) acc"
  shows "sorted_wrt (\<lambda>a b. \<not> lt b a) (foldl (\<lambda>acc x. insert_by lt x acc) acc xs)"
  using assms(3)
proof (induction xs arbitrary: acc)
  case Nil
  then show ?case by simp
next
  case (Cons x xs)
  have "sorted_wrt (\<lambda>a b. \<not> lt b a) (insert_by lt x acc)"
    using assms(1,2) Cons.prems by (rule sorted_insert_by)
  then show ?case using Cons.IH by simp
qed

lemma sorted_sort_Slice:
  assumes "\<And>a b c. lt a b \<Longrightarrow> lt b c \<Longrightarrow> lt a c" "\<And>a b. lt a b \<Longrightarrow> \<not> lt b a"
  shows "sorted_wrt (\<lambda>a b. \<not> lt b a) (sort_Slice lt xs)"
  unfolding sort_Slice_def by (rule sorted_foldl_insert_by [OF assms]) simp_all

subsection \<open>The ready set of SJFPrioritySchedule\<close>

lemma sint_eq_iff: "(sint (a::int64) = sint b) = (a = b)"
  using word_eq_iff_signed [of a b] by auto

lemma pri_less_trans: "pri_less ps a b \<Longrightarrow> pri_less ps b c \<Longrightarrow> pri_less ps a c"
  unfolding pri_less_def word_sless_alt
  by (auto split: if_splits simp flip: sint_eq_iff)

lemma pri_less_asym: "pri_less ps a b \<Longrightarrow> \<not> pri_less ps b a"
  unfolding pri_less_def word_sless_alt
  by (auto split: if_splits simp flip: sint_eq_iff)

lemma not_pri_less_iff:
  "(\<not> pri_less ps b a) =
     (BurstDuration (ps ! a) \<le>s BurstDuration (ps ! b) \<and>
      (BurstDuration (ps ! b) = BurstDuration (ps ! a) \<longrightarrow> Priority (ps ! a) \<le>s Priority (ps ! b)))"
  unfolding pri_less_def word_sless_alt word_sle_eq
  by (auto split: if_splits simp flip: sint_eq_iff)

lemma set_pri_available:
  "set (pri_available ps t) =
     {i. i < length ps \<and> \<not> Completed (ps ! i) \<and> ArrivalTime (ps ! i) \<le>s t}"
  by (auto simp: pri_available_def set_sort_Slice)

lemma sorted_pri_available:
  "sorted_wrt (\<lambda>a b. \<not> pri_less ps b a) (pri_available ps t)"
  unfolding pri_available_def Let_def
  by (rule sorted_sort_Slice) (blast intro: pri_less_trans dest: pri_less_asym)+

lemma pri_available_hd_in:
  assumes "pri_available ps t \<noteq> []"
  shows "pri_available ps t ! 0 \<in> set (pri_available ps t)"
  using assms by simp

lemma pri_available_hd_min:
  assumes "pri_available ps t \<noteq> []" and "j \<in> set (pri_available ps t)"
  shows "\<not> pri_less ps j (pri_available ps t ! 0)"
proof -
  obtain i rest where eq: "pri_available ps t = i # rest"
    using assms(1) by (cases "pri_available ps t") auto
  have "sorted_wrt (\<lambda>a b. \<not> pri_less ps b a) (i # rest)"
    using sorted_pri_available [of ps t] eq by simp
  moreover have "\<not> pri_less ps i i" using pri_less_asym by blast
  ultimately show ?thesis using assms(2) eq by auto
qed

lemma pri_available_example:
  "pri_available (pri_processes pri_example) (pri_currentTime pri_example) = [2, 1]"
  by (simp add: pri_example_def pri_available_def pri_less_def eval_defs upt_rec)

text \<open>
  Claim C1: in every iteration of the loop of \<open>SJFPrioritySchedule\<close> whose ready set is not
  empty, the iteration runs the process at \<open>available[0]\<close>; that process has arrived and is
  not completed, and among all processes that have arrived and are not completed it has the
  least burst duration and, among those of the same burst duration, the least priority value.
\<close>

theorem pri_selects_shortest_job:
  assumes "pri_completed v < length (pri_processes v)"
    and "pri_available (pri_processes v) (pri_currentTime v) \<noteq> []"
  shows "pri_loop v = pri_loop (pri_run v (pri_available (pri_processes v) (pri_currentTime v) ! 0)) \<and>
     (let idx = pri_available (pri_processes v) (pri_currentTime v) ! 0;
          p = pri_processes v ! idx
      in idx < length (pri_processes v) \<and> \<not> Completed p \<and>
         ArrivalTime p \<le>s pri_currentTime v \<and>
         (\<forall>i < length (pri_processes v).
            \<not> Completed (pri_processes v ! i) \<and>
            ArrivalTime (pri_processes v ! i) \<le>s pri_currentTime v \<longrightarrow>
            BurstDuration p \<le>s BurstDuration (pri_processes v ! i) \<and>
            (BurstDuration (pri_processes v ! i) = BurstDuration p \<longrightarrow>
               Priority p \<le>s Priority (pri_processes v ! i))))"
proof -
  let ?ps = "pri_processes v" and ?t = "pri_currentTime v"
  let ?idx = "pri_available ?ps ?t ! 0"
  have step: "pri_loop v = pri_loop (pri_run v ?idx)"
    using assms by (subst pri_loop.simps) (simp add: Let_def)
  have "?idx \<in> set (pri_available ?ps ?t)"
    using assms(2) by (rule pri_available_hd_in)
  then have ready: "?idx < length ?ps \<and> \<not> Completed (?ps ! ?idx) \<and> ArrivalTime (?ps ! ?idx) \<le>s ?t"
    by (simp add: set_pri_available)
  have least: "BurstDuration (?ps ! ?idx) \<le>s BurstDuration (?ps ! i) \<and>
      (BurstDuration (?ps ! i) = BurstDuration (?ps ! ?idx) \<longrightarrow>
         Priority (?ps ! ?idx) \<le>s Priority (?ps ! i))"
    if "i < length ?ps" "\<not> Completed (?ps ! i)" "ArrivalTime (?ps ! i) \<le>s ?t" for i
  proof -
    have "i \<in> set (pri_available ?ps ?t)" using that by (simp add: set_pri_available)
    then have "\<not> pri_less ?ps i ?idx" using assms(2) by (intro pri_available_hd_min)
    then show ?thesis by (simp add: not_pri_less_iff)
  qed
  show ?thesis using step ready least by (simp add: Let_def)
qed

theorem pri_selects_shortest_job_witness:
  "pri_completed pri_example < length (pri_processes pri_example) \<and>
   pri_available (pri_processes pri_example) (pri_currentTime pri_example) = [2, 1] \<and>
   pri_loop pri_example = pri_loop (pri_run pri_example 2) \<and>
   ProcessID (pri_processes pri_example ! 2) = ''C'' \<and>
   BurstDuration (pri_processes pri_example ! 2) \<le>s BurstDuration (pri_processes pri_example ! 1)"
  using pri_selects_shortest_job [of pri_example]
  by (simp add: pri_available_example) (simp add: pri_example_def eval_defs)

subsection \<open>The loop of SJFPrioritySchedule\<close>

lemma pri_loop_tick:
  assumes "pri_completed v < length (pri_processes v)"
    and "pri_available (pri_processes v) (pri_currentTime v) = []"
  shows "pri_loop v = pri_loop (v\<lparr>pri_currentTime := pri_currentTime v + 1\<rparr>)"
  using assms by (subst pri_loop.simps) (simp add: Let_def)

lemma pri_loop_run:
  assumes "pri_completed v < length (pri_processes v)"
    and "pri_available (pri_processes v) (pri_currentTime v) \<noteq> []"
  shows "pri_loop v = pri_loop (pri_run v (pri_available (pri_processes v) (pri_currentTime v) ! 0))"
  using assms by (subst pri_loop.simps) (simp add: Let_def)

lemma pri_loop_exit:
  assumes "\<not> pri_completed v < length (pri_processes v)"
  shows "pri_loop v = Some v"
  using assms by (subst pri_loop.simps) simp

lemma pri_available_first:
  assumes "pri_available ps t \<noteq> []"
  shows "pri_available ps t ! 0 < length ps \<and> \<not> Completed (ps ! (pri_available ps t ! 0)) \<and>
     ArrivalTime (ps ! (pri_available ps t ! 0)) \<le>s t"
proof -
  have "pri_available ps t ! 0 \<in> set (pri_available ps t)"
    using assms by (rule pri_available_hd_in)
  then show ?thesis by (simp add: set_pri_available)
qed

lemma pri_available_Nil_iff:
  "(pri_available ps t = []) =
     (\<forall>i < length ps. \<not> Completed (ps ! i) \<longrightarrow> \<not> ArrivalTime (ps ! i) \<le>s t)"
proof -
  have "(pri_available ps t = []) = (set (pri_available ps t) = {})" by simp
  then show ?thesis unfolding set_pri_available by auto
qed

text \<open>Partial correctness: an invariant of the two kinds of iteration holds on exit.\<close>

lemma pri_loop_partial:
  assumes ret: "pri_loop v = Some v'"
    and inv: "I v"
    and tick: "\<And>u. I u \<Longrightarrow> pri_completed u < length (pri_processes u) \<Longrightarrow>
       pri_available (pri_processes u) (pri_currentTime u) = [] \<Longrightarrow>
       I (u\<lparr>pri_currentTime := pri_currentTime u + 1\<rparr>)"
    and run: "\<And>u. I u \<Longrightarrow> pri_completed u < length (pri_processes u) \<Longrightarrow>
       pri_available (pri_processes u) (pri_currentTime u) \<noteq> [] \<Longrightarrow>
       I (pri_run u (pri_available (pri_processes u) (pri_currentTime u) ! 0))"
  shows "I v' \<and> \<not> pri_completed v' < length (pri_processes v')"
proof -
  let ?Q = "\<lambda>x y. I x \<longrightarrow> I y \<and> \<not> pri_completed y < length (pri_processes y)"
  have "?Q v v'"
  proof (rule pri_loop.raw_induct [where P = ?Q, OF _ ret])
    fix f u u'
    assume IH: "\<And>x y. f x = Some y \<Longrightarrow> ?Q x y"
      and body: "(if pri_completed u < length (pri_processes u)
          then let available = pri_available (pri_processes u) (pri_currentTime u)
               in if length available = 0
                  then f (u\<lparr>pri_currentTime := pri_currentTime u + 1\<rparr>)
                  else f (pri_run u (available ! 0))
          else Some u) = Some u'"
    show "?Q u u'"
    proof (cases "pri_completed u < length (pri_processes u)")
      case False
      then show ?thesis using body by simp
    next
      case guard: True
      show ?thesis
      proof (cases "pri_available (pri_processes u) (pri_currentTime u) = []")
        case True
        then have "f (u\<lparr>pri_currentTime := pri_currentTime u + 1\<rparr>) = Some u'"
          using body guard by (simp add: Let_def)
        then have step: "?Q (u\<lparr>pri_currentTime := pri_currentTime u + 1\<rparr>) u'"
          by (rule IH)
        show ?thesis
        proof
          assume "I u"
          then have "I (u\<lparr>pri_currentTime := pri_currentTime u + 1\<rparr>)"
            using guard True by (rule tick)
          with step show "I u' \<and> \<not> pri_completed u' < length (pri_processes u')" by simp
        qed
      next
        case False
        then have "f (pri_run u (pri_available (pri_processes u) (pri_currentTime u) ! 0)) = Some u'"
          using body guard by (simp add: Let_def)
        then have step: "?Q (pri_run u (pri_available (pri_processes u) (pri_currentTime u) ! 0)) u'"
          by (rule IH)
        show ?thesis
        proof
          assume "I u"
          then have "I (pri_run u (pri_available (pri_processes u) (pri_currentTime u) ! 0))"
            using guard False by (rule run)
          with step show "I u' \<and> \<not> pri_completed u' < length (pri_processes u')" by simp
        qed
      qed
    qed
  qed
  then show ?thesis using inv by simp
qed

lemma sint_int64_succ:
  fixes x :: int64
  assumes "sint x < 2 ^ 63 - 1"
  shows "sint (x + 1) = sint x + 1"
proof -
  have "- (2 ^ 63) \<le> sint x" using sint_ge [of x] by simp
  then have "signed_take_bit 63 (sint x + 1) = sint x + 1"
    using assms by (intro signed_take_bit_int_eq_self) auto
  moreover have "sint (x + 1) = signed_take_bit 63 (sint x + sint (1::int64))"
    using sint_word_add [of x 1] by simp
  ultimately show ?thesis by simp
qed

lemma sint_int64_less: "sint (x :: int64) < 2 ^ 63"
  using sint_lt [of x] by simp

lemma count_completed_update:
  assumes "i < length ps" and "\<not> Completed (ps ! i)"
  shows "length (filter Completed (ps[i := (ps ! i)\<lparr>Completed := True\<rparr>])) =
     Suc (length (filter Completed ps))"
  using assms
proof (induction ps arbitrary: i)
  case Nil
  then show ?case by simp
next
  case (Cons p ps)
  then show ?case by (cases i) auto
qed

lemma count_pending_update:
  assumes "i < length ps" and "\<not> Completed (ps ! i)"
  shows "Suc (length (filter (\<lambda>p. \<not> Completed p) (ps[i := (ps ! i)\<lparr>Completed := True\<rparr>]))) =
     length (filter (\<lambda>p. \<not> Completed p) ps)"
  using assms
proof (induction ps arbitrary: i)
  case Nil
  then show ?case by simp
next
  case (Cons p ps)
  then show ?case by (cases i) auto
qed

lemma pri_run_simps [simp]:
  "pri_processes (pri_run v i) = (pri_processes v)[i := (pri_processes v ! i)\<lparr>Completed := True\<rparr>]"
  "pri_completed (pri_run v i) = Suc (pri_completed v)"
  "pri_currentTime (pri_run v i) = pri_currentTime v + BurstDuration (pri_processes v ! i)"
  "pri_written (pri_run v i) = pri_written v @
     [CompletedLine (ProcessID (pri_processes v ! i))
        (pri_currentTime v + BurstDuration (pri_processes v ! i))
        (pri_currentTime v - ArrivalTime (pri_processes v ! i))
        (pri_currentTime v - ArrivalTime (pri_processes v ! i) + BurstDuration (pri_processes v ! i))]"
  by (simp_all add: pri_run_def Let_def)

lemma filter_partition_length:
  "length (filter P xs) + length (filter (\<lambda>x. \<not> P x) xs) = length xs"
  by (induction xs) auto


text \<open>Total correctness: when the counter counts the flags, the loop returns.\<close>

lemma pri_loop_total:
  assumes inv: "I v" and cnt: "pri_counted v"
    and tick: "\<And>u. I u \<Longrightarrow> pri_counted u \<Longrightarrow> pri_completed u < length (pri_processes u) \<Longrightarrow>
       pri_available (pri_processes u) (pri_currentTime u) = [] \<Longrightarrow>
       I (u\<lparr>pri_currentTime := pri_currentTime u + 1\<rparr>)"
    and run: "\<And>u. I u \<Longrightarrow> pri_counted u \<Longrightarrow> pri_completed u < length (pri_processes u) \<Longrightarrow>
       pri_available (pri_processes u) (pri_currentTime u) \<noteq> [] \<Longrightarrow>
       I (pri_run u (pri_available (pri_processes u) (pri_currentTime u) ! 0))"
  shows "\<exists>v'. pri_loop v = Some v' \<and> I v' \<and> pri_counted v' \<and>
     pri_completed v' = length (pri_processes v')"
proof -
  let ?m1 = "\<lambda>u. length (filter (\<lambda>p. \<not> Completed p) (pri_processes u))"
  let ?m2 = "\<lambda>u. nat (2 ^ 63 - 1 - sint (pri_currentTime u))"
  have "wf (measures [?m1, ?m2])" by simp
  then show ?thesis using inv cnt
  proof (induction v rule: wf_induct_rule)
    case (less u)
    let ?ps = "pri_processes u" and ?t = "pri_currentTime u"
    have le: "pri_completed u \<le> length ?ps"
      using less.prems(2) by (simp add: pri_counted_def)
    show ?case
    proof (cases "pri_completed u < length ?ps")
      case False
      then have "pri_loop u = Some u" by (rule pri_loop_exit)
      then show ?thesis using less.prems le False by auto
    next
      case guard: True
      show ?thesis
      proof (cases "pri_available ?ps ?t = []")
        case True
        let ?u' = "u\<lparr>pri_currentTime := ?t + 1\<rparr>"
        have "pri_completed u = length (filter Completed ?ps)"
          using less.prems(2) by (simp only: pri_counted_def)
        then have "0 < length (filter (\<lambda>p. \<not> Completed p) ?ps)"
          using guard filter_partition_length [of Completed ?ps] by linarith
        then have "filter (\<lambda>p. \<not> Completed p) ?ps \<noteq> []" by simp
        then obtain p where "p \<in> set ?ps" "\<not> Completed p"
          by (auto simp: filter_empty_conv)
        then obtain i where i: "i < length ?ps" "\<not> Completed (?ps ! i)"
          by (auto simp: in_set_conv_nth)
        then have "\<not> ArrivalTime (?ps ! i) \<le>s ?t"
          using True by (simp add: pri_available_Nil_iff)
        then have "sint ?t < sint (ArrivalTime (?ps ! i))"
          by (simp add: word_sle_eq)
        then have lt: "sint ?t < 2 ^ 63 - 1"
          using sint_int64_less [of "ArrivalTime (?ps ! i)"] by simp
        then have "sint (?t + 1) = sint ?t + 1" by (rule sint_int64_succ)
        then have "(?u', u) \<in> measures [?m1, ?m2]" using lt by simp
        moreover have "I ?u'" using less.prems guard True by (intro tick)
        moreover have "pri_counted ?u'" using less.prems(2) by (simp add: pri_counted_def)
        ultimately have "\<exists>v'. pri_loop ?u' = Some v' \<and> I v' \<and> pri_counted v' \<and>
            pri_completed v' = length (pri_processes v')"
          by (rule less.IH)
        then show ?thesis using pri_loop_tick [OF guard True] by simp
      next
        case False
        let ?i = "pri_available ?ps ?t ! 0"
        let ?u' = "pri_run u ?i"
        have i: "?i < length ?ps" "\<not> Completed (?ps ! ?i)"
          using pri_available_first [OF False] by simp_all
        have "(?u', u) \<in> measures [?m1, ?m2]"
          using count_pending_update [OF i] by simp
        moreover have "I ?u'" using less.prems guard False by (intro run)
        moreover have "pri_counted ?u'"
          using less.prems(2) count_completed_update [OF i] by (simp add: pri_counted_def)
        ultimately have "\<exists>v'. pri_loop ?u' = Some v' \<and> I v' \<and> pri_counted v' \<and>
            pri_completed v' = length (pri_processes v')"
          by (rule less.IH)
        then show ?thesis using pri_loop_run [OF guard False] by simp
      qed
    qed
  qed
qed

subsection \<open>What SJFPrioritySchedule writes\<close>

lemma completion_lines_append:
  "completion_lines (xs @ ys) = completion_lines xs @ completion_lines ys"
  by (induction xs rule: completion_lines.induct) auto

lemma timeline_append: "timeline (xs @ ys) = timeline xs @ timeline ys"
  by (induction xs rule: timeline.induct) auto


lemma completed_update_mset:
  assumes "i < length ps" and "\<not> Completed (ps ! i)"
  shows "mset (filter Completed (ps[i := (ps ! i)\<lparr>Completed := True\<rparr>])) =
     add_mset ((ps ! i)\<lparr>Completed := True\<rparr>) (mset (filter Completed ps))"
  using assms
proof (induction ps arbitrary: i)
  case Nil
  then show ?case by simp
next
  case (Cons p ps)
  then show ?case by (cases i) auto
qed

lemma pending_update_mset:
  assumes "i < length ps" and "\<not> Completed (ps ! i)"
  shows "mset (filter (\<lambda>p. \<not> Completed p) ps) =
     add_mset (ps ! i) (mset (filter (\<lambda>p. \<not> Completed p) (ps[i := (ps ! i)\<lparr>Completed := True\<rparr>])))"
  using assms
proof (induction ps arbitrary: i)
  case Nil
  then show ?case by simp
next
  case (Cons p ps)
  then show ?case by (cases i) auto
qed

lemma map_update_same:
  assumes "i < length ps" and "f y = f (ps ! i)"
  shows "map f (ps[i := y]) = map f ps"
  using assms by (simp add: map_update list_update_same_conv)

lemma all_completed:
  assumes "length (filter Completed ps) = length ps"
  shows "filter Completed ps = ps"
  using assms by (metis filter_True length_filter_less less_irrefl_nat filter_cong)

lemma pri_counted_init:
  assumes "\<forall>p\<in>set processes. \<not> Completed p"
  shows "pri_counted (pri_init title processes)"
proof -
  have "\<forall>p\<in>set (sort_Slice (\<lambda>p q. ArrivalTime p <s ArrivalTime q) processes). \<not> Completed p"
    using assms by (simp add: set_sort_Slice)
  then have "filter Completed (sort_Slice (\<lambda>p q. ArrivalTime p <s ArrivalTime q) processes) = []"
    by (simp add: filter_empty_conv)
  then show ?thesis by (simp add: pri_counted_def pri_init_def)
qed

text \<open>What a run that starts with no flag set has written when the loop is left.\<close>

lemma pri_loop_written:
  assumes "\<forall>p\<in>set processes. \<not> Completed p"
  shows "\<exists>v lines. pri_loop (pri_init title processes) = Some v \<and>
     pri_written v = Banner title # lines \<and> list_all is_CompletedLine lines \<and>
     length lines = length processes \<and>
     mset (map fst (completion_lines lines)) = mset (map ProcessID processes) \<and>
     length (pri_processes v) = length processes"
proof -
  let ?ps0 = "sort_Slice (\<lambda>p q. ArrivalTime p <s ArrivalTime q) processes"
  let ?I = "\<lambda>u. map ProcessID (pri_processes u) = map ProcessID ?ps0 \<and>
     (\<exists>lines. pri_written u = Banner title # lines \<and> list_all is_CompletedLine lines \<and>
        length lines = pri_completed u \<and>
        mset (map fst (completion_lines lines)) =
          mset (map ProcessID (filter Completed (pri_processes u))))"
  have init: "?I (pri_init title processes)"
  proof -
    have "filter Completed ?ps0 = []"
      using assms by (simp add: filter_empty_conv set_sort_Slice)
    then show ?thesis by (simp add: pri_init_def)
  qed
  have tick: "?I (u\<lparr>pri_currentTime := pri_currentTime u + 1\<rparr>)" if "?I u" for u
    using that by simp
  have run: "?I (pri_run u (pri_available (pri_processes u) (pri_currentTime u) ! 0))"
    if inv: "?I u" and avail: "pri_available (pri_processes u) (pri_currentTime u) \<noteq> []" for u
  proof -
    let ?ps = "pri_processes u"
    let ?i = "pri_available ?ps (pri_currentTime u) ! 0"
    have i: "?i < length ?ps" "\<not> Completed (?ps ! ?i)"
      using pri_available_first [OF avail] by simp_all
    obtain lines where lines: "pri_written u = Banner title # lines"
      "list_all is_CompletedLine lines" "length lines = pri_completed u"
      "mset (map fst (completion_lines lines)) = mset (map ProcessID (filter Completed ?ps))"
      using inv by blast
    have ids: "map ProcessID (?ps[?i := (?ps ! ?i)\<lparr>Completed := True\<rparr>]) = map ProcessID ?ps"
      using i(1) by (intro map_update_same) simp_all
    have "mset (map ProcessID (filter Completed (?ps[?i := (?ps ! ?i)\<lparr>Completed := True\<rparr>]))) =
        image_mset ProcessID
          (mset (filter Completed (?ps[?i := (?ps ! ?i)\<lparr>Completed := True\<rparr>])))"
      by (simp only: mset_map)
    also have "\<dots> = image_mset ProcessID
        (add_mset ((?ps ! ?i)\<lparr>Completed := True\<rparr>) (mset (filter Completed ?ps)))"
      by (simp only: completed_update_mset [OF i])
    also have "\<dots> = add_mset (ProcessID (?ps ! ?i)) (mset (map ProcessID (filter Completed ?ps)))"
      by simp
    finally have "mset (map ProcessID (filter Completed (?ps[?i := (?ps ! ?i)\<lparr>Completed := True\<rparr>]))) =
        add_mset (ProcessID (?ps ! ?i)) (mset (map ProcessID (filter Completed ?ps)))" .
    then show ?thesis
      using lines ids inv by (simp add: completion_lines_append)
  qed
  have "\<exists>v. pri_loop (pri_init title processes) = Some v \<and> ?I v \<and> pri_counted v \<and>
      pri_completed v = length (pri_processes v)"
    using init pri_counted_init [OF assms] tick run by (intro pri_loop_total) blast+
  then obtain v where v: "pri_loop (pri_init title processes) = Some v" "?I v" "pri_counted v"
      "pri_completed v = length (pri_processes v)"
    by blast
  have full: "filter Completed (pri_processes v) = pri_processes v"
    using v(3,4) by (intro all_completed) (simp add: pri_counted_def)
  have len: "length (pri_processes v) = length processes"
    using v(2) length_sort_Slice [of "\<lambda>p q. ArrivalTime p <s ArrivalTime q" processes]
    by (metis length_map)
  have "mset (map ProcessID ?ps0) = mset (map ProcessID processes)"
    using mset_sort_Slice [of "\<lambda>p q. ArrivalTime p <s ArrivalTime q" processes]
    by (metis mset_map)
  moreover have "map ProcessID (pri_processes v) = map ProcessID ?ps0"
    using v(2) by simp
  ultimately have ids: "mset (map ProcessID (pri_processes v)) = mset (map ProcessID processes)"
    by simp
  obtain lines where lines: "pri_written v = Banner title # lines"
    "list_all is_CompletedLine lines" "length lines = pri_completed v"
    "mset (map fst (completion_lines lines)) =
       mset (map ProcessID (filter Completed (pri_processes v)))"
    using v(2) by blast
  have "mset (map fst (completion_lines lines)) = mset (map ProcessID processes)"
    using lines(4) full ids by simp
  then show ?thesis using v(1,4) lines(1,2,3) len by simp
qed

subsection \<open>Termination of SJFPrioritySchedule\<close>

lemma idle_ticks_admit:
  assumes "\<exists>p\<in>set ps. \<not> Completed p"
  shows "\<exists>k. pri_available ps (t + of_nat k) \<noteq> [] \<and>
     (\<forall>j<k. pri_available ps (t + of_nat j) = [])"
proof (induction "nat (2 ^ 63 - 1 - sint t)" arbitrary: t rule: less_induct)
  case less
  show ?case
  proof (cases "pri_available ps t = []")
    case False
    then have "pri_available ps (t + of_nat 0) \<noteq> [] \<and>
        (\<forall>j<0. pri_available ps (t + of_nat j) = [])" by simp
    then show ?thesis by blast
  next
    case True
    obtain i where i: "i < length ps" "\<not> Completed (ps ! i)"
      using assms by (auto simp: in_set_conv_nth)
    then have "\<not> ArrivalTime (ps ! i) \<le>s t"
      using True by (simp add: pri_available_Nil_iff)
    then have "sint t < sint (ArrivalTime (ps ! i))" by (simp add: word_sle_eq)
    then have lt: "sint t < 2 ^ 63 - 1"
      using sint_int64_less [of "ArrivalTime (ps ! i)"] by simp
    then have "sint (t + 1) = sint t + 1" by (rule sint_int64_succ)
    then have "nat (2 ^ 63 - 1 - sint (t + 1)) < nat (2 ^ 63 - 1 - sint t)"
      using lt by simp
    then obtain k where k: "pri_available ps (t + 1 + of_nat k) \<noteq> []"
        "\<forall>j<k. pri_available ps (t + 1 + of_nat j) = []"
      using less by blast
    have "pri_available ps (t + of_nat (Suc k)) \<noteq> []"
      using k(1) by (simp add: add.assoc)
    moreover have "pri_available ps (t + of_nat j) = []" if "j < Suc k" for j
    proof (cases j)
      case 0
      then show ?thesis using True by simp
    next
      case (Suc j')
      then have "j' < k" using that by simp
      then have "pri_available ps (t + 1 + of_nat j') = []" using k(2) by simp
      then show ?thesis using Suc by (simp add: add.assoc)
    qed
    ultimately show ?thesis by blast
  qed
qed

text \<open>
  Claim C6: \<open>SJFPrioritySchedule\<close> terminates on every input whose \<open>Completed\<close> flags are all
  unset (whatever the arrival times and burst durations, so in particular when all bursts are
  positive), and every process gets its completion line; an iteration whose ready set is empty
  only advances the clock by 1 and retries; and from any clock value, as long as a process is
  not completed, finitely many such ticks make the ready set non-empty.
\<close>

theorem pri_schedule_terminates:
  assumes "\<forall>p\<in>set processes. \<not> Completed p"
  shows "(\<exists>out. SJFPrioritySchedule title processes = Some out \<and>
        mset (map fst (completion_lines out)) = mset (map ProcessID processes)) \<and>
     (\<forall>v. pri_completed v < length (pri_processes v) \<and>
          pri_available (pri_processes v) (pri_currentTime v) = [] \<longrightarrow>
          pri_loop v = pri_loop (v\<lparr>pri_currentTime := pri_currentTime v + 1\<rparr>)) \<and>
     (\<forall>ps t. (\<exists>p\<in>set ps. \<not> Completed p) \<longrightarrow>
          (\<exists>k. pri_available ps (t + of_nat k) \<noteq> [] \<and>
               (\<forall>j<k. pri_available ps (t + of_nat j) = [])))"
proof -
  obtain v lines where v: "pri_loop (pri_init title processes) = Some v"
      "pri_written v = Banner title # lines"
      "mset (map fst (completion_lines lines)) = mset (map ProcessID processes)"
    using pri_loop_written [OF assms, of title] by blast
  have "\<exists>out. SJFPrioritySchedule title processes = Some out \<and>
      mset (map fst (completion_lines out)) = mset (map ProcessID processes)"
    using v by (simp add: SJFPrioritySchedule_def Let_def completion_lines_append)
  then show ?thesis
    using pri_loop_tick idle_ticks_admit by blast
qed

lemma pri_loop_example_idle:
  "SJFPrioritySchedule ''SJFP'' [proc ''A'' 2 2 1] =
     Some [Banner ''SJFP'', CompletedLine ''A'' 4 0 2, AvgWaitLine (Num 0),
           AvgTurnaroundLine (Num 2), ThroughputLine (Num (1 / 4))]"
  by (simp add: SJFPrioritySchedule_def pri_init_def pri_loop.simps pri_available_def
      pri_less_def pri_run_def eval_defs)

theorem pri_schedule_terminates_witness:
  "list_all (\<lambda>p. \<not> Completed p) [proc ''A'' 2 2 1] \<and>
   SJFPrioritySchedule ''SJFP'' [proc ''A'' 2 2 1] =
     Some [Banner ''SJFP'', CompletedLine ''A'' 4 0 2, AvgWaitLine (Num 0),
           AvgTurnaroundLine (Num 2), ThroughputLine (Num (1 / 4))] \<and>
   pri_available [proc ''A'' 2 2 1] 0 = [] \<and> pri_available [proc ''A'' 2 2 1] 1 = [] \<and>
   pri_available [proc ''A'' 2 2 1] 2 = [0]"
  using pri_schedule_terminates [of "[proc ''A'' 2 2 1]" "''SJFP''"]
  by (simp add: pri_loop_example_idle) (simp add: pri_available_def pri_less_def eval_defs)

text \<open>
  Claim C10: if some process of the input has its \<open>Completed\<close> flag set on entry,
  \<open>SJFPrioritySchedule\<close> never leaves its loop: \<open>completed\<close> plus the number of processes
  still to run stays below \<open>len(processes)\<close>.
\<close>

theorem pri_schedule_diverges_on_precompleted:
  assumes "\<exists>p\<in>set processes. Completed p"
  shows "SJFPrioritySchedule title processes = None"
proof -
  let ?ps0 = "sort_Slice (\<lambda>p q. ArrivalTime p <s ArrivalTime q) processes"
  let ?I = "\<lambda>u. pri_completed u + length (filter (\<lambda>p. \<not> Completed p) (pri_processes u))
      < length (pri_processes u)"
  have "pri_loop (pri_init title processes) \<noteq> Some v" for v
  proof
    assume ret: "pri_loop (pri_init title processes) = Some v"
    obtain p where "p \<in> set ?ps0" "Completed p"
      using assms by (auto simp: set_sort_Slice)
    then have "length (filter (\<lambda>p. \<not> Completed p) ?ps0) < length ?ps0"
      by (intro length_filter_less) auto
    then have init: "?I (pri_init title processes)" by (simp add: pri_init_def)
    have tick: "?I (u\<lparr>pri_currentTime := pri_currentTime u + 1\<rparr>)" if "?I u" for u
      using that by simp
    have run: "?I (pri_run u (pri_available (pri_processes u) (pri_currentTime u) ! 0))"
      if "?I u" "pri_available (pri_processes u) (pri_currentTime u) \<noteq> []" for u
    proof -
      let ?i = "pri_available (pri_processes u) (pri_currentTime u) ! 0"
      have i: "?i < length (pri_processes u)" "\<not> Completed (pri_processes u ! ?i)"
        using pri_available_first [OF that(2)] by simp_all
      show ?thesis using that(1) count_pending_update [OF i] by simp
    qed
    have "?I v \<and> \<not> pri_completed v < length (pri_processes v)"
      using ret init tick run by (rule pri_loop_partial [where I = ?I])
    then show False by linarith
  qed
  then have "pri_loop (pri_init title processes) = None" by (cases "pri_loop (pri_init title processes)") auto
  then show ?thesis by (simp add: SJFPrioritySchedule_def)
qed

theorem pri_schedule_diverges_on_precompleted_witness:
  "list_ex Completed [(proc ''A'' 0 5 1)\<lparr>Completed := True\<rparr>] \<and>
   SJFPrioritySchedule ''SJFP'' [(proc ''A'' 0 5 1)\<lparr>Completed := True\<rparr>] = None"
  using pri_schedule_diverges_on_precompleted [of "[(proc ''A'' 0 5 1)\<lparr>Completed := True\<rparr>]" "''SJFP''"]
  by (simp add: proc_def)

subsection \<open>What the schedulers write\<close>

lemma fcfs_loop_Nil: "fcfs_loop [] = fcfs_init"
  by (simp add: fcfs_loop_def)

lemma fcfs_loop_snoc: "fcfs_loop (ps @ [p]) = fcfs_step (fcfs_loop ps) p"
  by (simp add: fcfs_loop_def)

lemma sjf_loop_Nil: "sjf_loop [] = sjf_init"
  by (simp add: sjf_loop_def)

lemma sjf_loop_snoc: "sjf_loop (ps @ [p]) = sjf_step (sjf_loop ps) p"
  by (simp add: sjf_loop_def)

lemma fcfs_step_simps:
  "map PID (fcfs_gantt (fcfs_step v p)) = map PID (fcfs_gantt v) @ [ProcessID p]"
  "map row_pid (fcfs_schedule (fcfs_step v p)) = map row_pid (fcfs_schedule v) @ [ProcessID p]"
  by (simp_all add: fcfs_step_def Let_def)

lemma sjf_step_simps:
  "map PID (sjf_gantt (sjf_step v p)) = map PID (sjf_gantt v) @ [ProcessID p]"
  "map row_pid (sjf_schedule (sjf_step v p)) = map row_pid (sjf_schedule v) @ [ProcessID p]"
  by (simp_all add: sjf_step_def Let_def)

lemma fcfs_loop_pids:
  "map PID (fcfs_gantt (fcfs_loop ps)) = map ProcessID ps \<and>
   map row_pid (fcfs_schedule (fcfs_loop ps)) = map ProcessID ps"
  by (induction ps rule: rev_induct)
    (simp_all add: fcfs_loop_Nil fcfs_init_def fcfs_loop_snoc fcfs_step_simps)

lemma sjf_loop_pids:
  "map PID (sjf_gantt (sjf_loop ps)) = map ProcessID ps \<and>
   map row_pid (sjf_schedule (sjf_loop ps)) = map ProcessID ps"
  by (induction ps rule: rev_induct)
    (simp_all add: sjf_loop_Nil sjf_init_def sjf_loop_snoc sjf_step_simps)

lemma timeline_FCFSSchedule [simp]: "timeline (FCFSSchedule title ps) = fcfs_gantt (fcfs_loop ps)"
  by (simp add: FCFSSchedule_def Let_def)

lemma metric_rows_FCFSSchedule [simp]:
  "metric_rows (FCFSSchedule title ps) = fcfs_schedule (fcfs_loop ps)"
  by (simp add: FCFSSchedule_def Let_def)

lemma timeline_SJFSchedule [simp]:
  "timeline (SJFSchedule title ps) = sjf_gantt (sjf_loop (sjf_sorted ps))"
  by (simp add: SJFSchedule_def Let_def)

lemma metric_rows_SJFSchedule [simp]:
  "metric_rows (SJFSchedule title ps) = sjf_schedule (sjf_loop (sjf_sorted ps))"
  by (simp add: SJFSchedule_def Let_def)

lemma pri_schedule_written:
  assumes "\<forall>p\<in>set processes. \<not> Completed p"
  shows "\<exists>lines a b c. SJFPrioritySchedule title processes =
       Some (Banner title # lines @ [AvgWaitLine a, AvgTurnaroundLine b, ThroughputLine c]) \<and>
     list_all is_CompletedLine lines \<and> length lines = length processes \<and>
     mset (map fst (completion_lines lines)) = mset (map ProcessID processes)"
proof -
  obtain v lines where v: "pri_loop (pri_init title processes) = Some v"
      "pri_written v = Banner title # lines" "list_all is_CompletedLine lines"
      "length lines = length processes"
      "mset (map fst (completion_lines lines)) = mset (map ProcessID processes)"
    using pri_loop_written [OF assms, of title] by blast
  show ?thesis using v by (simp add: SJFPrioritySchedule_def Let_def)
qed

lemma timeline_completed_lines:
  "list_all is_CompletedLine lines \<Longrightarrow> timeline lines = []"
  by (induction lines rule: timeline.induct) auto

text \<open>
  Claim C7, as stated: each of the four schedulers produces a timeline, per-process metric
  rows and the three aggregates. It fails: \<open>RRSchedule\<close> has an empty body and writes
  nothing.
\<close>

theorem rr_writes_nothing_counterexample:
  "\<not> (list_ex is_GanttChart (RRSchedule ''RR'' [proc ''A'' 0 5 1]) \<and>
      list_ex is_ScheduleTable (RRSchedule ''RR'' [proc ''A'' 0 5 1]) \<and>
      length (aggregates (RRSchedule ''RR'' [proc ''A'' 0 5 1])) = 3)"
  by (simp add: RRSchedule_def)

text \<open>
  Claim C7, amended: \<open>FCFSSchedule\<close> and \<open>SJFSchedule\<close> write a title, a timeline with one
  segment per process, one metric row per process and the three aggregates (\<open>SJFSchedule\<close>
  in the order of its sort by burst duration). \<open>SJFPrioritySchedule\<close>, started with no
  \<open>Completed\<close> flag set, writes a banner, one completion line per process and the three
  aggregates, and neither a timeline nor metric rows. \<open>RRSchedule\<close> writes nothing.
\<close>

theorem schedulers_output_shape:
  "(\<exists>g rows a b c. FCFSSchedule title ps = [Title title, GanttChart g, ScheduleTable rows a b c] \<and>
      map PID g = map ProcessID ps \<and> map row_pid rows = map ProcessID ps) \<and>
   (\<exists>g rows a b c. SJFSchedule title ps = [Title title, GanttChart g, ScheduleTable rows a b c] \<and>
      map PID g = map ProcessID (sjf_sorted ps) \<and> map row_pid rows = map ProcessID (sjf_sorted ps) \<and>
      mset (sjf_sorted ps) = mset ps) \<and>
   ((\<forall>p\<in>set ps. \<not> Completed p) \<longrightarrow>
      (\<exists>lines a b c. SJFPrioritySchedule title ps =
          Some (Banner title # lines @ [AvgWaitLine a, AvgTurnaroundLine b, ThroughputLine c]) \<and>
        list_all is_CompletedLine lines \<and> length lines = length ps \<and>
        mset (map fst (completion_lines lines)) = mset (map ProcessID ps) \<and>
        timeline (Banner title # lines @ [AvgWaitLine a, AvgTurnaroundLine b, ThroughputLine c]) = [] \<and>
        metric_rows (Banner title # lines @ [AvgWaitLine a, AvgTurnaroundLine b, ThroughputLine c]) = [])) \<and>
   RRSchedule title ps = []"
proof -
  have fcfs: "\<exists>g rows a b c. FCFSSchedule title ps = [Title title, GanttChart g, ScheduleTable rows a b c] \<and>
      map PID g = map ProcessID ps \<and> map row_pid rows = map ProcessID ps"
    using fcfs_loop_pids [of ps] by (simp add: FCFSSchedule_def Let_def)
  have sjf: "\<exists>g rows a b c. SJFSchedule title ps = [Title title, GanttChart g, ScheduleTable rows a b c] \<and>
      map PID g = map ProcessID (sjf_sorted ps) \<and> map row_pid rows = map ProcessID (sjf_sorted ps) \<and>
      mset (sjf_sorted ps) = mset ps"
    using sjf_loop_pids [of "sjf_sorted ps"]
    by (simp add: SJFSchedule_def Let_def) (simp add: sjf_sorted_def mset_sort_Slice)
  have pri: "\<exists>lines a b c. SJFPrioritySchedule title ps =
          Some (Banner title # lines @ [AvgWaitLine a, AvgTurnaroundLine b, ThroughputLine c]) \<and>
        list_all is_CompletedLine lines \<and> length lines = length ps \<and>
        mset (map fst (completion_lines lines)) = mset (map ProcessID ps) \<and>
        timeline (Banner title # lines @ [AvgWaitLine a, AvgTurnaroundLine b, ThroughputLine c]) = [] \<and>
        metric_rows (Banner title # lines @ [AvgWaitLine a, AvgTurnaroundLine b, ThroughputLine c]) = []"
    if np: "\<forall>p\<in>set ps. \<not> Completed p"
  proof -
    obtain lines a b c where l: "SJFPrioritySchedule title ps =
          Some (Banner title # lines @ [AvgWaitLine a, AvgTurnaroundLine b, ThroughputLine c])"
        "list_all is_CompletedLine lines" "length lines = length ps"
        "mset (map fst (completion_lines lines)) = mset (map ProcessID ps)"
      using pri_schedule_written [OF np, of title] by blast
    have "timeline (lines @ [AvgWaitLine a, AvgTurnaroundLine b, ThroughputLine c]) = []"
      using l(2) by (simp add: timeline_append timeline_completed_lines)
    moreover have "metric_rows (lines @ [AvgWaitLine a, AvgTurnaroundLine b, ThroughputLine c]) = []"
      using l(2) by (induction lines rule: metric_rows.induct) auto
    ultimately show ?thesis using l by auto
  qed
  show ?thesis using fcfs sjf pri by (simp add: RRSchedule_def)
qed

lemma FCFSSchedule_example:
  "FCFSSchedule ''FCFS'' spec_example =
     [Title ''FCFS'',
      GanttChart [\<lparr>PID = ''A'', Start = 0, Stop = 5\<rparr>, \<lparr>PID = ''B'', Start = 5, Stop = 8\<rparr>,
                  \<lparr>PID = ''C'', Start = 8, Stop = 9\<rparr>],
      ScheduleTable
        [\<lparr>row_pid = ''A'', row_priority = 1, row_burst = 5, row_arrival = 0,
           row_waiting = 0, row_turnaround = 5, row_completion = 5\<rparr>,
         \<lparr>row_pid = ''B'', row_priority = 2, row_burst = 3, row_arrival = 1,
           row_waiting = 4, row_turnaround = 7, row_completion = 8\<rparr>,
         \<lparr>row_pid = ''C'', row_priority = 3, row_burst = 1, row_arrival = 2,
           row_waiting = 6, row_turnaround = 7, row_completion = 9\<rparr>]
        (Num (10 / 3)) (Num (19 / 3)) (Num (1 / 3))]"
  by (simp add: spec_example_def FCFSSchedule_def fcfs_loop_def fcfs_init_def fcfs_step_def
      eval_defs)

lemma SJFSchedule_example:
  "SJFSchedule ''SJF'' spec_example =
     [Title ''SJF'',
      GanttChart [\<lparr>PID = ''C'', Start = 2, Stop = 3\<rparr>, \<lparr>PID = ''B'', Start = 3, Stop = 6\<rparr>,
                  \<lparr>PID = ''A'', Start = 6, Stop = 11\<rparr>],
      ScheduleTable
        [\<lparr>row_pid = ''C'', row_priority = 3, row_burst = 1, row_arrival = 2,
           row_waiting = 0, row_turnaround = 1, row_completion = 3\<rparr>,
         \<lparr>row_pid = ''B'', row_priority = 2, row_burst = 3, row_arrival = 1,
           row_waiting = 2, row_turnaround = 5, row_completion = 6\<rparr>,
         \<lparr>row_pid = ''A'', row_priority = 1, row_burst = 5, row_arrival = 0,
           row_waiting = 6, row_turnaround = 11, row_completion = 11\<rparr>]
        (Num (8 / 3)) (Num (17 / 3)) (Num (3 / 11))]"
  by (simp add: spec_example_def SJFSchedule_def sjf_sorted_def sjf_loop_def sjf_init_def
      sjf_step_def eval_defs)

lemma SJFPrioritySchedule_example:
  "SJFPrioritySchedule ''SJFP'' spec_example =
     Some [Banner ''SJFP'', CompletedLine ''A'' 5 0 5, CompletedLine ''C'' 6 3 4,
           CompletedLine ''B'' 9 5 8, AvgWaitLine (Num (8 / 3)),
           AvgTurnaroundLine (Num (17 / 3)), ThroughputLine (Num (1 / 3))]"
  by (simp add: spec_example_def SJFPrioritySchedule_def pri_init_def pri_loop.simps
      pri_available_def pri_less_def pri_run_def eval_defs)

theorem schedulers_output_shape_witness:
  "list_all (\<lambda>p. \<not> Completed p) spec_example \<and>
   map PID (timeline (FCFSSchedule ''FCFS'' spec_example)) = [''A'', ''B'', ''C''] \<and>
   map row_pid (metric_rows (SJFSchedule ''SJF'' spec_example)) = [''C'', ''B'', ''A''] \<and>
   SJFPrioritySchedule ''SJFP'' spec_example =
     Some [Banner ''SJFP'', CompletedLine ''A'' 5 0 5, CompletedLine ''C'' 6 3 4,
           CompletedLine ''B'' 9 5 8, AvgWaitLine (Num (8 / 3)),
           AvgTurnaroundLine (Num (17 / 3)), ThroughputLine (Num (1 / 3))] \<and>
   RRSchedule ''RR'' spec_example = []"
  using schedulers_output_shape [of "''SJFP''" spec_example]
  by (simp add: FCFSSchedule_example SJFSchedule_example SJFPrioritySchedule_example
      RRSchedule_def) (simp add: spec_example_def proc_def)

subsection \<open>SJF rows and throughput\<close>

lemma max_int64_smax: "max_int64 a b = smax a b"
  by (simp add: max_int64_def smax_def word_sless_alt)

lemma sjf_schedule_foldl:
  "sjf_schedule (foldl sjf_step v ps) = sjf_schedule v @ sjf_spec_rows (sjf_currentTime v) ps"
proof (induction ps arbitrary: v)
  case Nil
  then show ?case by simp
next
  case (Cons p ps)
  show ?case
    by (simp add: Cons.IH) (simp add: sjf_step_def Let_def max_int64_smax)
qed

lemma sorted_sjf_sorted:
  "sorted_wrt (\<lambda>p q. BurstDuration p \<le>s BurstDuration q) (sjf_sorted ps)"
proof -
  have "sorted_wrt (\<lambda>p q. \<not> BurstDuration q <s BurstDuration p) (sjf_sorted ps)"
    unfolding sjf_sorted_def
    by (rule sorted_sort_Slice) (auto simp: word_sless_alt)
  then show ?thesis
    by (rule sorted_wrt_mono_rel [rotated]) (simp add: word_sless_alt word_sle_eq)
qed

text \<open>
  Claim C5: \<open>SJFSchedule\<close> sorts the input by ascending burst duration (the sorted slice is
  a permutation of the input, ordered by \<open>BurstDuration\<close>), and the rows it computes over
  that order are those of the specification: \<open>waitTime = max(0, currentTime - arrivalTime)\<close>,
  \<open>currentTime' = max(currentTime, arrivalTime) + burstDuration\<close>,
  \<open>turnaround = currentTime' - arrivalTime\<close>, with the clock starting at 0.
\<close>

theorem sjf_rows_follow_spec:
  "metric_rows (SJFSchedule title ps) = sjf_spec_rows 0 (sjf_sorted ps) \<and>
   mset (sjf_sorted ps) = mset ps \<and>
   sorted_wrt (\<lambda>p q. BurstDuration p \<le>s BurstDuration q) (sjf_sorted ps)"
  using sjf_schedule_foldl [of sjf_init "sjf_sorted ps"] sorted_sjf_sorted [of ps]
  by (simp add: sjf_loop_def) (simp add: sjf_init_def sjf_sorted_def mset_sort_Slice)








subsection \<open>int64 arithmetic without wrap-around\<close>

lemma sint_int64_add:
  fixes a b :: int64
  assumes "- (2 ^ 63) \<le> sint a + sint b" and "sint a + sint b < 2 ^ 63"
  shows "sint (a + b) = sint a + sint b"
proof -
  have "signed_take_bit 63 (sint a + sint b) = sint a + sint b"
    using assms by (intro signed_take_bit_int_eq_self) auto
  then show ?thesis using sint_word_add [of a b] by simp
qed

lemma sint_int64_diff:
  fixes a b :: int64
  assumes "- (2 ^ 63) \<le> sint a - sint b" and "sint a - sint b < 2 ^ 63"
  shows "sint (a - b) = sint a - sint b"
proof -
  have "signed_take_bit 63 (sint a - sint b) = sint a - sint b"
    using assms by (intro signed_take_bit_int_eq_self) auto
  then show ?thesis using sint_word_diff [of a b] by simp
qed

lemma valid_process_sint:
  "valid_process p = (0 \<le> sint (ArrivalTime p) \<and> 0 < sint (BurstDuration p))"
  by (simp add: valid_process_def word_sle_eq word_sless_alt)

lemma sum_burst_nonneg:
  "list_all valid_process ps \<Longrightarrow> 0 \<le> (\<Sum>p\<leftarrow>ps. sint (BurstDuration p))"
  by (induction ps) (auto simp: valid_process_sint)

lemma sum_arrival_nonneg:
  "list_all valid_process ps \<Longrightarrow> 0 \<le> (\<Sum>p\<leftarrow>ps. sint (ArrivalTime p))"
  by (induction ps) (auto simp: valid_process_sint)

lemma total_time_split:
  "total_time ps = (\<Sum>p\<leftarrow>ps. sint (ArrivalTime p)) + (\<Sum>p\<leftarrow>ps. sint (BurstDuration p))"
  by (induction ps) (auto simp: total_time_def)

lemma disjoint_slices_snoc:
  "disjoint_slices (ts @ [s]) =
     (disjoint_slices ts \<and> list_all (\<lambda>u. Stop u \<le>s Start s \<or> Stop s \<le>s Start u) ts)"
  by (induction ts) auto

lemma covered_snoc: "covered (ts @ [s]) = covered ts + (sint (Stop s) - sint (Start s))"
  by (simp add: covered_def)

text \<open>The state of FCFS after a valid prefix that fits into int64.\<close>

lemma fcfs_loop_inv:
  assumes "list_all valid_process ps" and "total_time ps < 2 ^ 63"
  shows "sint (fcfs_serviceTime (fcfs_loop ps)) = (\<Sum>p\<leftarrow>ps. sint (BurstDuration p)) \<and>
     - (\<Sum>p\<leftarrow>ps. sint (ArrivalTime p)) \<le> sint (fcfs_waitingTime (fcfs_loop ps)) \<and>
     sint (fcfs_waitingTime (fcfs_loop ps)) \<le> (\<Sum>p\<leftarrow>ps. sint (BurstDuration p)) \<and>
     (\<Sum>r\<leftarrow>fcfs_schedule (fcfs_loop ps). sint (row_turnaround r)) =
       (\<Sum>r\<leftarrow>fcfs_schedule (fcfs_loop ps). sint (row_waiting r)) +
       (\<Sum>p\<leftarrow>ps. sint (BurstDuration p))"
  using assms
proof (induction ps rule: rev_induct)
  case Nil
  then show ?case by (simp add: fcfs_loop_Nil fcfs_init_def)
next
  case (snoc p qs)
  let ?v = "fcfs_loop qs"
  let ?S = "\<Sum>q\<leftarrow>qs. sint (BurstDuration q)" and ?A = "\<Sum>q\<leftarrow>qs. sint (ArrivalTime q)"
  let ?a = "sint (ArrivalTime p)" and ?b = "sint (BurstDuration p)"
  have vp: "list_all valid_process qs" "valid_process p"
    using snoc.prems(1) by simp_all
  have valid: "list_all valid_process qs" "0 \<le> ?a" "0 < ?b"
    using vp valid_process_sint [of p] by simp_all
  have nn: "0 \<le> ?S" "0 \<le> ?A"
    using valid(1) by (simp_all add: sum_burst_nonneg sum_arrival_nonneg)
  have bound: "?A + ?S + ?a + ?b < 2 ^ 63"
    using snoc.prems(2) by (simp add: total_time_split)
  then have "total_time qs < 2 ^ 63" using valid nn by (simp add: total_time_split)
  then have IH: "sint (fcfs_serviceTime ?v) = ?S" "- ?A \<le> sint (fcfs_waitingTime ?v)"
      "sint (fcfs_waitingTime ?v) \<le> ?S"
      "(\<Sum>r\<leftarrow>fcfs_schedule ?v. sint (row_turnaround r)) =
         (\<Sum>r\<leftarrow>fcfs_schedule ?v. sint (row_waiting r)) + ?S"
    using snoc.IH valid(1) by simp_all
  define w where "w = (if 0 <s ArrivalTime p then fcfs_serviceTime ?v - ArrivalTime p
      else fcfs_waitingTime ?v)"
  have diff: "sint (fcfs_serviceTime ?v - ArrivalTime p) = ?S - ?a"
    using IH(1) nn valid bound sint_int64_less [of "ArrivalTime p"]
    by (subst sint_int64_diff) auto
  have w: "- (?A + ?a) \<le> sint w" "sint w \<le> ?S"
    using IH(2,3) diff nn valid by (auto simp: w_def)
  have turn: "sint (BurstDuration p + w) = ?b + sint w"
    using w nn valid bound by (subst sint_int64_add) auto
  have serv: "sint (fcfs_serviceTime ?v + BurstDuration p) = ?S + ?b"
    using IH(1) nn valid bound by (subst sint_int64_add) auto
  have step: "fcfs_serviceTime (fcfs_step ?v p) = fcfs_serviceTime ?v + BurstDuration p"
    "fcfs_waitingTime (fcfs_step ?v p) = w"
    "map row_turnaround (fcfs_schedule (fcfs_step ?v p)) =
       map row_turnaround (fcfs_schedule ?v) @ [BurstDuration p + w]"
    "map row_waiting (fcfs_schedule (fcfs_step ?v p)) = map row_waiting (fcfs_schedule ?v) @ [w]"
    by (simp_all add: fcfs_step_def Let_def w_def)
  have sums: "(\<Sum>r\<leftarrow>fcfs_schedule (fcfs_step ?v p). sint (row_turnaround r)) =
        (\<Sum>r\<leftarrow>fcfs_schedule ?v. sint (row_turnaround r)) + sint (BurstDuration p + w)"
      "(\<Sum>r\<leftarrow>fcfs_schedule (fcfs_step ?v p). sint (row_waiting r)) =
        (\<Sum>r\<leftarrow>fcfs_schedule ?v. sint (row_waiting r)) + sint w"
    by (simp_all add: fcfs_step_def Let_def w_def)
  show ?case
    using step(1,2) sums IH(4) turn serv w valid by (simp add: fcfs_loop_snoc)
qed

lemma sint_max_int64: "sint (max_int64 a b) = max (sint a) (sint b)"
  by (simp add: max_int64_def word_sless_alt max_def)

text \<open>The state of SJF after a valid list (already in execution order) that fits into int64.\<close>

lemma sjf_loop_inv:
  assumes "list_all valid_process ps" and "total_time ps < 2 ^ 63"
  shows "0 \<le> sint (sjf_currentTime (sjf_loop ps)) \<and>
     sint (sjf_currentTime (sjf_loop ps)) \<le> total_time ps \<and>
     (\<Sum>r\<leftarrow>sjf_schedule (sjf_loop ps). sint (row_turnaround r)) =
       (\<Sum>r\<leftarrow>sjf_schedule (sjf_loop ps). sint (row_waiting r)) +
       (\<Sum>p\<leftarrow>ps. sint (BurstDuration p)) \<and>
     disjoint_slices (sjf_gantt (sjf_loop ps)) \<and>
     sorted_wrt (\<lambda>s u. Start s \<le>s Start u) (sjf_gantt (sjf_loop ps)) \<and>
     (\<forall>s\<in>set (sjf_gantt (sjf_loop ps)).
        sint (Start s) \<le> sint (Stop s) \<and> sint (Stop s) \<le> sint (sjf_currentTime (sjf_loop ps))) \<and>
     covered (sjf_gantt (sjf_loop ps)) = (\<Sum>p\<leftarrow>ps. sint (BurstDuration p))"
  using assms
proof (induction ps rule: rev_induct)
  case Nil
  then show ?case by (simp add: sjf_loop_Nil sjf_init_def covered_def total_time_def)
next
  case (snoc p qs)
  let ?v = "sjf_loop qs"
  let ?c = "sint (sjf_currentTime ?v)"
  let ?a = "sint (ArrivalTime p)" and ?b = "sint (BurstDuration p)"
  have vp: "list_all valid_process qs" "valid_process p"
    using snoc.prems(1) by simp_all
  have valid: "0 \<le> ?a" "0 < ?b" using vp(2) valid_process_sint [of p] by simp_all
  have tt: "total_time (qs @ [p]) = total_time qs + ?a + ?b"
    by (simp add: total_time_def)
  have nn: "0 \<le> total_time qs"
    using vp(1) sum_burst_nonneg [of qs] sum_arrival_nonneg [of qs]
    by (simp add: total_time_split)
  have bound: "total_time qs + ?a + ?b < 2 ^ 63" using snoc.prems(2) tt by simp
  then have "total_time qs < 2 ^ 63" using valid by simp
  then have IH: "0 \<le> ?c" "?c \<le> total_time qs"
      "(\<Sum>r\<leftarrow>sjf_schedule ?v. sint (row_turnaround r)) =
         (\<Sum>r\<leftarrow>sjf_schedule ?v. sint (row_waiting r)) + (\<Sum>q\<leftarrow>qs. sint (BurstDuration q))"
      "disjoint_slices (sjf_gantt ?v)"
      "sorted_wrt (\<lambda>s u. Start s \<le>s Start u) (sjf_gantt ?v)"
      "\<forall>s\<in>set (sjf_gantt ?v). sint (Start s) \<le> sint (Stop s) \<and> sint (Stop s) \<le> ?c"
      "covered (sjf_gantt ?v) = (\<Sum>q\<leftarrow>qs. sint (BurstDuration q))"
    using snoc.IH vp(1) by simp_all
  define m where "m = max_int64 (sjf_currentTime ?v) (ArrivalTime p)"
  define c' where "c' = m + BurstDuration p"
  define w where "w = max_int64 0 (sjf_currentTime ?v - ArrivalTime p)"
  have m: "sint m = max ?c ?a" by (simp add: m_def sint_max_int64)
  have c': "sint c' = max ?c ?a + ?b"
    unfolding c'_def using m IH(1,2) valid bound by (subst sint_int64_add) auto
  have d: "sint (sjf_currentTime ?v - ArrivalTime p) = ?c - ?a"
    using IH(1,2) valid bound by (subst sint_int64_diff) auto
  have w: "sint w = max 0 (?c - ?a)" by (simp add: w_def sint_max_int64 d)
  have t: "sint (c' - ArrivalTime p) = max ?c ?a + ?b - ?a"
    using c' IH(1,2) valid bound by (subst sint_int64_diff) auto
  have st: "sint (c' - BurstDuration p) = max ?c ?a"
    using c' IH(1,2) valid bound by (subst sint_int64_diff) auto
  have step: "sjf_currentTime (sjf_step ?v p) = c'"
    "sjf_schedule (sjf_step ?v p) = sjf_schedule ?v @
       [\<lparr>row_pid = ProcessID p, row_priority = Priority p, row_burst = BurstDuration p,
         row_arrival = ArrivalTime p, row_waiting = w, row_turnaround = c' - ArrivalTime p,
         row_completion = c'\<rparr>]"
    "sjf_gantt (sjf_step ?v p) = sjf_gantt ?v @
       [\<lparr>PID = ProcessID p, Start = c' - BurstDuration p, Stop = c'\<rparr>]"
    by (simp_all add: sjf_step_def Let_def w_def c'_def m_def)
  have clock: "0 \<le> sint c'" "sint c' \<le> total_time (qs @ [p])"
    using c' IH(1,2) valid tt by auto
  have sums: "(\<Sum>r\<leftarrow>sjf_schedule (sjf_step ?v p). sint (row_turnaround r)) =
       (\<Sum>r\<leftarrow>sjf_schedule (sjf_step ?v p). sint (row_waiting r)) +
       (\<Sum>q\<leftarrow>qs @ [p]. sint (BurstDuration q))"
    using IH(3) w t by (simp add: step(2))
  have before: "list_all (\<lambda>u. Stop u \<le>s c' - BurstDuration p \<or> Stop \<lparr>PID = ProcessID p, Start = c' - BurstDuration p, Stop = c'\<rparr> \<le>s Start u) (sjf_gantt ?v)"
    using IH(6) st by (auto simp: list_all_iff word_sle_eq)
  have disj: "disjoint_slices (sjf_gantt (sjf_step ?v p))"
    using IH(4) before by (simp add: step(3) disjoint_slices_snoc)
  have sorted: "sorted_wrt (\<lambda>s u. Start s \<le>s Start u) (sjf_gantt (sjf_step ?v p))"
    using IH(5,6) st by (auto simp: step(3) sorted_wrt_append word_sle_eq)
  have stops: "\<forall>s\<in>set (sjf_gantt (sjf_step ?v p)).
        sint (Start s) \<le> sint (Stop s) \<and> sint (Stop s) \<le> sint c'"
    using IH(6) st c' valid by (auto simp: step(3))
  have cov: "covered (sjf_gantt (sjf_step ?v p)) = (\<Sum>q\<leftarrow>qs @ [p]. sint (BurstDuration q))"
    using IH(7) st c' by (simp add: step(3) covered_snoc)
  show ?case
    using clock sums disj sorted stops cov by (simp add: sjf_loop_snoc step(1))
qed

text \<open>The timeline of FCFS when every process after the first arrives after time 0.\<close>

lemma fcfs_gantt_inv:
  assumes "list_all valid_process ps" and "total_time ps < 2 ^ 63"
    and "list_all (\<lambda>q. 0 <s ArrivalTime q) (tl ps)"
  shows "disjoint_slices (fcfs_gantt (fcfs_loop ps)) \<and>
     sorted_wrt (\<lambda>s u. Start s \<le>s Start u) (fcfs_gantt (fcfs_loop ps)) \<and>
     (\<forall>s\<in>set (fcfs_gantt (fcfs_loop ps)).
        sint (Start s) \<le> sint (Stop s) \<and>
        sint (Stop s) \<le> (\<Sum>p\<leftarrow>ps. sint (BurstDuration p))) \<and>
     covered (fcfs_gantt (fcfs_loop ps)) = (\<Sum>p\<leftarrow>ps. sint (BurstDuration p))"
  using assms
proof (induction ps rule: rev_induct)
  case Nil
  then show ?case by (simp add: fcfs_loop_Nil fcfs_init_def covered_def)
next
  case (snoc p qs)
  let ?v = "fcfs_loop qs"
  let ?S = "\<Sum>q\<leftarrow>qs. sint (BurstDuration q)" and ?A = "\<Sum>q\<leftarrow>qs. sint (ArrivalTime q)"
  let ?a = "sint (ArrivalTime p)" and ?b = "sint (BurstDuration p)"
  have vp: "list_all valid_process qs" "valid_process p"
    using snoc.prems(1) by simp_all
  have valid: "0 \<le> ?a" "0 < ?b" using vp(2) valid_process_sint [of p] by simp_all
  have nn: "0 \<le> ?S" "0 \<le> ?A"
    using vp(1) by (simp_all add: sum_burst_nonneg sum_arrival_nonneg)
  have bound: "?A + ?S + ?a + ?b < 2 ^ 63"
    using snoc.prems(2) by (simp add: total_time_split)
  then have tq: "total_time qs < 2 ^ 63" using valid nn by (simp add: total_time_split)
  have reg: "list_all (\<lambda>q. 0 <s ArrivalTime q) (tl qs)"
    using snoc.prems(3) by (cases qs) simp_all
  have IH: "disjoint_slices (fcfs_gantt ?v)"
      "sorted_wrt (\<lambda>s u. Start s \<le>s Start u) (fcfs_gantt ?v)"
      "\<forall>s\<in>set (fcfs_gantt ?v). sint (Start s) \<le> sint (Stop s) \<and> sint (Stop s) \<le> ?S"
      "covered (fcfs_gantt ?v) = ?S"
    using snoc.IH [OF vp(1) tq reg] by simp_all
  have serv: "sint (fcfs_serviceTime ?v) = ?S"
    using fcfs_loop_inv [OF vp(1) tq] by simp
  define w where "w = (if 0 <s ArrivalTime p then fcfs_serviceTime ?v - ArrivalTime p
      else fcfs_waitingTime ?v)"
  have start: "w + ArrivalTime p = fcfs_serviceTime ?v"
  proof (cases qs)
    case Nil
    have "ArrivalTime p = 0" if "\<not> 0 <s ArrivalTime p"
      using that valid(1) by (simp add: word_sless_alt flip: sint_eq_iff)
    then show ?thesis using Nil by (auto simp: w_def fcfs_loop_Nil fcfs_init_def)
  next
    case (Cons q qs')
    then have "0 <s ArrivalTime p" using snoc.prems(3) by simp
    then show ?thesis by (simp add: w_def)
  qed
  have stop: "sint (fcfs_serviceTime ?v + BurstDuration p) = ?S + ?b"
    using serv nn valid bound by (subst sint_int64_add) auto
  have step: "fcfs_gantt (fcfs_step ?v p) = fcfs_gantt ?v @
       [\<lparr>PID = ProcessID p, Start = fcfs_serviceTime ?v,
         Stop = fcfs_serviceTime ?v + BurstDuration p\<rparr>]"
    using start by (simp add: fcfs_step_def Let_def w_def)
  have disj: "disjoint_slices (fcfs_gantt (fcfs_step ?v p))"
    using IH(1,3) serv by (auto simp: step disjoint_slices_snoc list_all_iff word_sle_eq)
  have sorted: "sorted_wrt (\<lambda>s u. Start s \<le>s Start u) (fcfs_gantt (fcfs_step ?v p))"
    using IH(2,3) serv by (auto simp: step sorted_wrt_append word_sle_eq)
  have stops: "\<forall>s\<in>set (fcfs_gantt (fcfs_step ?v p)).
        sint (Start s) \<le> sint (Stop s) \<and>
        sint (Stop s) \<le> (\<Sum>q\<leftarrow>qs @ [p]. sint (BurstDuration q))"
    using IH(3) serv stop valid by (auto simp: step)
  have cov: "covered (fcfs_gantt (fcfs_step ?v p)) = (\<Sum>q\<leftarrow>qs @ [p]. sint (BurstDuration q))"
    using IH(4) serv stop by (simp add: step covered_snoc)
  show ?case using disj sorted stops cov by (simp add: fcfs_loop_snoc)
qed

lemma sum_list_mset_cong:
  fixes f :: "'a \<Rightarrow> int"
  assumes "mset xs = mset ys"
  shows "(\<Sum>x\<leftarrow>xs. f x) = (\<Sum>y\<leftarrow>ys. f y)"
proof -
  have "mset (map f xs) = mset (map f ys)" using assms by (metis mset_map)
  then show ?thesis by (metis sum_mset_sum_list)
qed

lemma total_time_mset: "mset xs = mset ys \<Longrightarrow> total_time xs = total_time ys"
  unfolding total_time_def by (rule sum_list_mset_cong)

lemma list_all_mset: "mset xs = mset ys \<Longrightarrow> list_all P xs = list_all P ys"
  by (metis list_all_iff set_mset_mset)

lemma sum_pending_update:
  fixes f :: "Process \<Rightarrow> int"
  assumes "i < length ps" and "\<not> Completed (ps ! i)"
  shows "(\<Sum>p\<leftarrow>filter (\<lambda>p. \<not> Completed p) ps. f p) =
     f (ps ! i) + (\<Sum>p\<leftarrow>filter (\<lambda>p. \<not> Completed p) (ps[i := (ps ! i)\<lparr>Completed := True\<rparr>]). f p)"
  using assms
proof (induction ps arbitrary: i)
  case Nil
  then show ?case by simp
next
  case (Cons p ps)
  then show ?case by (cases i) auto
qed

lemma sum_completed_update:
  fixes f :: "Process \<Rightarrow> int"
  assumes "i < length ps" and "\<not> Completed (ps ! i)"
  shows "(\<Sum>p\<leftarrow>filter Completed (ps[i := (ps ! i)\<lparr>Completed := True\<rparr>]). f p) =
     f ((ps ! i)\<lparr>Completed := True\<rparr>) + (\<Sum>p\<leftarrow>filter Completed ps. f p)"
  using assms
proof (induction ps arbitrary: i)
  case Nil
  then show ?case by simp
next
  case (Cons p ps)
  then show ?case by (cases i) auto
qed

lemma pending_burst_le_total:
  assumes "list_all valid_process ps"
  shows "(\<Sum>p\<leftarrow>filter (\<lambda>p. \<not> Completed p) ps. sint (BurstDuration p)) \<le> total_time ps"
  using assms
proof (induction ps)
  case Nil
  then show ?case by (simp add: total_time_def)
next
  case (Cons p ps)
  have "valid_process p" "list_all valid_process ps" using Cons.prems by simp_all
  then have "0 \<le> sint (ArrivalTime p)" "0 < sint (BurstDuration p)"
      "(\<Sum>p\<leftarrow>filter (\<lambda>p. \<not> Completed p) ps. sint (BurstDuration p)) \<le> total_time ps"
    using valid_process_sint [of p] Cons.IH by simp_all
  then show ?case by (simp add: total_time_def)
qed

lemma pending_arrival_le_total:
  assumes "list_all valid_process ps" and "i < length ps" and "\<not> Completed (ps ! i)"
  shows "sint (ArrivalTime (ps ! i)) +
     (\<Sum>p\<leftarrow>filter (\<lambda>p. \<not> Completed p) ps. sint (BurstDuration p)) \<le> total_time ps"
  using assms
proof (induction ps arbitrary: i)
  case Nil
  then show ?case by simp
next
  case (Cons p ps)
  have v: "valid_process p" "list_all valid_process ps" using Cons.prems(1) by simp_all
  then have p: "0 \<le> sint (ArrivalTime p)" "0 < sint (BurstDuration p)"
    using valid_process_sint [of p] by simp_all
  show ?case
  proof (cases i)
    case 0
    then show ?thesis
      using Cons.prems(3) pending_burst_le_total [OF v(2)] by (simp add: total_time_def)
  next
    case (Suc j)
    then have "sint (ArrivalTime (ps ! j)) +
        (\<Sum>p\<leftarrow>filter (\<lambda>p. \<not> Completed p) ps. sint (BurstDuration p)) \<le> total_time ps"
      using Cons.prems(2,3) v(2) by (intro Cons.IH) simp_all
    then show ?thesis using Suc p by (simp add: total_time_def)
  qed
qed

lemma list_all_update:
  assumes "list_all P ps" and "P y"
  shows "list_all P (ps[i := y])"
  using assms set_update_subset_insert [of ps i y] by (auto simp: list_all_iff)

lemma total_time_update:
  assumes "i < length ps"
  shows "total_time (ps[i := (ps ! i)\<lparr>Completed := True\<rparr>]) = total_time ps"
proof -
  have "map (\<lambda>p. sint (ArrivalTime p) + sint (BurstDuration p)) (ps[i := (ps ! i)\<lparr>Completed := True\<rparr>]) =
      map (\<lambda>p. sint (ArrivalTime p) + sint (BurstDuration p)) ps"
    using assms by (intro map_update_same) simp_all
  then show ?thesis by (simp add: total_time_def)
qed

lemma sum_burst_update:
  assumes "i < length ps"
  shows "(\<Sum>p\<leftarrow>ps[i := (ps ! i)\<lparr>Completed := True\<rparr>]. sint (BurstDuration p)) =
     (\<Sum>p\<leftarrow>ps. sint (BurstDuration p))"
proof -
  have "map (\<lambda>p. sint (BurstDuration p)) (ps[i := (ps ! i)\<lparr>Completed := True\<rparr>]) =
      map (\<lambda>p. sint (BurstDuration p)) ps"
    using assms by (intro map_update_same) simp_all
  then show ?thesis by simp
qed

text \<open>The sums over the completion lines of SJFPrioritySchedule, on valid input that fits.\<close>

lemma pri_loop_sums:
  assumes fresh: "\<forall>p\<in>set processes. \<not> Completed p"
    and valid: "list_all valid_process processes"
    and fits: "total_time processes < 2 ^ 63"
  shows "\<exists>v. pri_loop (pri_init title processes) = Some v \<and>
     (\<Sum>l\<leftarrow>completion_lines (pri_written v). sint (snd (snd (snd l)))) =
       (\<Sum>l\<leftarrow>completion_lines (pri_written v). sint (fst (snd (snd l)))) +
       (\<Sum>p\<leftarrow>processes. sint (BurstDuration p))"
proof -
  let ?ps0 = "sort_Slice (\<lambda>p q. ArrivalTime p <s ArrivalTime q) processes"
  let ?T = "total_time processes"
  let ?pending = "\<lambda>u. \<Sum>p\<leftarrow>filter (\<lambda>p. \<not> Completed p) (pri_processes u). sint (BurstDuration p)"
  let ?finished = "\<lambda>u. \<Sum>p\<leftarrow>filter Completed (pri_processes u). sint (BurstDuration p)"
  let ?I = "\<lambda>u. list_all valid_process (pri_processes u) \<and>
     total_time (pri_processes u) = ?T \<and>
     (\<Sum>p\<leftarrow>pri_processes u. sint (BurstDuration p)) = (\<Sum>p\<leftarrow>processes. sint (BurstDuration p)) \<and>
     0 \<le> sint (pri_currentTime u) \<and>
     sint (pri_currentTime u) + ?pending u \<le> ?T \<and>
     (\<Sum>l\<leftarrow>completion_lines (pri_written u). sint (snd (snd (snd l)))) =
       (\<Sum>l\<leftarrow>completion_lines (pri_written u). sint (fst (snd (snd l)))) + ?finished u"
  have perm: "mset ?ps0 = mset processes" by (rule mset_sort_Slice)
  have init: "?I (pri_init title processes)"
  proof -
    have "list_all valid_process ?ps0" using valid list_all_mset [OF perm] by simp
    moreover have "total_time ?ps0 = ?T" using perm by (rule total_time_mset)
    moreover have "(\<Sum>p\<leftarrow>?ps0. sint (BurstDuration p)) = (\<Sum>p\<leftarrow>processes. sint (BurstDuration p))"
      using perm by (rule sum_list_mset_cong)
    moreover have "filter Completed ?ps0 = []"
      using fresh by (simp add: filter_empty_conv set_sort_Slice)
    moreover have "(\<Sum>p\<leftarrow>filter (\<lambda>p. \<not> Completed p) ?ps0. sint (BurstDuration p)) \<le> total_time ?ps0"
      using calculation(1) by (rule pending_burst_le_total)
    ultimately show ?thesis by (simp add: pri_init_def)
  qed
  have tick: "?I (u\<lparr>pri_currentTime := pri_currentTime u + 1\<rparr>)"
    if inv: "?I u" and cnt: "pri_counted u"
      and guard: "pri_completed u < length (pri_processes u)"
      and idle: "pri_available (pri_processes u) (pri_currentTime u) = []" for u
  proof -
    let ?ps = "pri_processes u" and ?t = "pri_currentTime u"
    have "pri_completed u = length (filter Completed ?ps)"
      using cnt by (simp only: pri_counted_def)
    then have "0 < length (filter (\<lambda>p. \<not> Completed p) ?ps)"
      using guard filter_partition_length [of Completed ?ps] by linarith
    then have "filter (\<lambda>p. \<not> Completed p) ?ps \<noteq> []" by simp
    then obtain p where "p \<in> set ?ps" "\<not> Completed p"
      by (auto simp: filter_empty_conv)
    then obtain i where i: "i < length ?ps" "\<not> Completed (?ps ! i)"
      by (auto simp: in_set_conv_nth)
    then have "\<not> ArrivalTime (?ps ! i) \<le>s ?t"
      using idle by (simp add: pri_available_Nil_iff)
    then have late: "sint ?t < sint (ArrivalTime (?ps ! i))" by (simp add: word_sle_eq)
    then have "sint ?t < 2 ^ 63 - 1"
      using sint_int64_less [of "ArrivalTime (?ps ! i)"] by simp
    then have succ: "sint (?t + 1) = sint ?t + 1" by (rule sint_int64_succ)
    have "sint (ArrivalTime (?ps ! i)) + ?pending u \<le> total_time ?ps"
      using inv i by (intro pending_arrival_le_total) simp_all
    then have "sint (?t + 1) + ?pending u \<le> ?T" using succ late inv by simp
    then show ?thesis using inv succ by simp
  qed
  have run: "?I (pri_run u (pri_available (pri_processes u) (pri_currentTime u) ! 0))"
    if inv: "?I u" and avail: "pri_available (pri_processes u) (pri_currentTime u) \<noteq> []" for u
  proof -
    let ?ps = "pri_processes u" and ?t = "pri_currentTime u"
    let ?i = "pri_available ?ps ?t ! 0"
    let ?p = "?ps ! ?i"
    let ?ps' = "?ps[?i := ?p\<lparr>Completed := True\<rparr>]"
    let ?a = "sint (ArrivalTime ?p)" and ?b = "sint (BurstDuration ?p)"
    have i: "?i < length ?ps" "\<not> Completed ?p" and ready: "ArrivalTime ?p \<le>s ?t"
      using pri_available_first [OF avail] by simp_all
    have "?p \<in> set ?ps" using i(1) by simp
    then have "valid_process ?p" using inv by (simp add: list_all_iff)
    then have p: "0 \<le> ?a" "0 < ?b" using valid_process_sint [of ?p] by simp_all
    have arr: "?a \<le> sint ?t" using ready by (simp add: word_sle_eq)
    have pend: "?pending u = ?b + (\<Sum>p\<leftarrow>filter (\<lambda>p. \<not> Completed p) ?ps'. sint (BurstDuration p))"
      using i by (rule sum_pending_update)
    have pend_nn: "0 \<le> (\<Sum>p\<leftarrow>filter (\<lambda>p. \<not> Completed p) ?ps'. sint (BurstDuration p))"
    proof -
      have "list_all valid_process ?ps'"
        using inv \<open>valid_process ?p\<close>
        by (intro list_all_update) (simp_all add: valid_process_def)
      then have "list_all valid_process (filter (\<lambda>p. \<not> Completed p) ?ps')"
        by (simp add: list_all_iff)
      then show ?thesis by (rule sum_burst_nonneg)
    qed
    have fin: "(\<Sum>p\<leftarrow>filter Completed ?ps'. sint (BurstDuration p)) = ?b + ?finished u"
      using sum_completed_update [OF i, of "\<lambda>p. sint (BurstDuration p)"] by simp
    have bound: "sint ?t + ?b < 2 ^ 63"
      using inv pend pend_nn fits by simp
    have clock: "sint (?t + BurstDuration ?p) = sint ?t + ?b"
      using inv p bound by (subst sint_int64_add) auto
    have wait: "sint (?t - ArrivalTime ?p) = sint ?t - ?a"
      using inv p arr bound by (subst sint_int64_diff) auto
    have turn: "sint (?t - ArrivalTime ?p + BurstDuration ?p) = sint ?t - ?a + ?b"
      using wait inv p arr bound by (subst sint_int64_add) auto
    have "list_all valid_process ?ps'"
      using inv \<open>valid_process ?p\<close> by (intro list_all_update) (simp_all add: valid_process_def)
    moreover have "total_time ?ps' = ?T" using inv i(1) by (simp add: total_time_update)
    moreover have "(\<Sum>p\<leftarrow>?ps'. sint (BurstDuration p)) = (\<Sum>p\<leftarrow>processes. sint (BurstDuration p))"
      using inv i(1) by (simp add: sum_burst_update)
    moreover have "0 \<le> sint (?t + BurstDuration ?p)" using clock inv p by simp
    moreover have "sint (?t + BurstDuration ?p) +
        (\<Sum>p\<leftarrow>filter (\<lambda>p. \<not> Completed p) ?ps'. sint (BurstDuration p)) \<le> ?T"
      using clock pend inv by simp
    moreover have "(\<Sum>l\<leftarrow>completion_lines (pri_written (pri_run u ?i)). sint (snd (snd (snd l)))) =
        (\<Sum>l\<leftarrow>completion_lines (pri_written (pri_run u ?i)). sint (fst (snd (snd l)))) +
        (\<Sum>p\<leftarrow>filter Completed ?ps'. sint (BurstDuration p))"
      using inv wait turn fin by (simp add: completion_lines_append)
    ultimately show ?thesis by simp
  qed
  have "\<exists>v. pri_loop (pri_init title processes) = Some v \<and> ?I v \<and> pri_counted v \<and>
      pri_completed v = length (pri_processes v)"
    using init pri_counted_init [OF fresh] tick run by (intro pri_loop_total) blast+
  then obtain v where v: "pri_loop (pri_init title processes) = Some v" "?I v" "pri_counted v"
      "pri_completed v = length (pri_processes v)"
    by blast
  have "filter Completed (pri_processes v) = pri_processes v"
    using v(3,4) by (intro all_completed) (simp add: pri_counted_def)
  then have "?finished v = (\<Sum>p\<leftarrow>processes. sint (BurstDuration p))" using v(2) by simp
  then show ?thesis using v(1,2) by auto
qed

subsection \<open>Sums of turnaround and waiting times, timelines\<close>

lemma valid_spec_example:
  "list_all valid_process spec_example \<and> within_int64 spec_example \<and>
   list_all (\<lambda>q. 0 <s ArrivalTime q) (tl spec_example) \<and>
   list_all (\<lambda>p. \<not> Completed p) spec_example"
  by (simp add: spec_example_def valid_process_def within_int64_def total_time_def eval_defs)

text \<open>
  Claim C4, as stated: for every non-empty valid process set the sum of the turnaround times
  equals the sum of the waiting times plus the sum of the burst durations. It fails when
  \<open>int64\<close> wraps around: for two valid processes of burst \<open>2 ^ 63 - 1\<close> under
  \<open>FCFSSchedule\<close> the second turnaround is \<open>-3\<close>.
\<close>

theorem turnaround_sum_overflow_counterexample:
  "list_all valid_process
     [proc ''A'' 0 9223372036854775807 1, proc ''B'' 1 9223372036854775807 2] \<and>
   (\<Sum>r\<leftarrow>metric_rows (FCFSSchedule ''FCFS''
        [proc ''A'' 0 9223372036854775807 1, proc ''B'' 1 9223372036854775807 2]).
      sint (row_turnaround r)) = 9223372036854775804 \<and>
   (\<Sum>r\<leftarrow>metric_rows (FCFSSchedule ''FCFS''
        [proc ''A'' 0 9223372036854775807 1, proc ''B'' 1 9223372036854775807 2]).
      sint (row_waiting r)) = 9223372036854775806 \<and>
   (\<Sum>p\<leftarrow>[proc ''A'' 0 9223372036854775807 1, proc ''B'' 1 9223372036854775807 2].
      sint (BurstDuration p)) = 18446744073709551614 \<and>
   (\<Sum>r\<leftarrow>metric_rows (FCFSSchedule ''FCFS''
        [proc ''A'' 0 9223372036854775807 1, proc ''B'' 1 9223372036854775807 2]).
      sint (row_turnaround r)) \<noteq>
   (\<Sum>r\<leftarrow>metric_rows (FCFSSchedule ''FCFS''
        [proc ''A'' 0 9223372036854775807 1, proc ''B'' 1 9223372036854775807 2]).
      sint (row_waiting r)) +
   (\<Sum>p\<leftarrow>[proc ''A'' 0 9223372036854775807 1, proc ''B'' 1 9223372036854775807 2].
      sint (BurstDuration p))"
  by (simp add: valid_process_def FCFSSchedule_def fcfs_loop_def fcfs_init_def fcfs_step_def
      eval_defs)

text \<open>
  Claim C4, amended: for every valid process set whose arrival times and burst durations sum to
  less than \<open>2 ^ 63\<close>, under \<open>FCFSSchedule\<close>, \<open>SJFSchedule\<close> and (with no \<open>Completed\<close>
  flag set on entry) \<open>SJFPrioritySchedule\<close>, the sum of the turnaround times equals the sum of
  the waiting times plus the sum of the burst durations.
\<close>

theorem turnaround_sum:
  assumes "list_all valid_process ps" and "within_int64 ps"
  shows "(\<Sum>r\<leftarrow>metric_rows (FCFSSchedule title ps). sint (row_turnaround r)) =
       (\<Sum>r\<leftarrow>metric_rows (FCFSSchedule title ps). sint (row_waiting r)) +
       (\<Sum>p\<leftarrow>ps. sint (BurstDuration p)) \<and>
     (\<Sum>r\<leftarrow>metric_rows (SJFSchedule title ps). sint (row_turnaround r)) =
       (\<Sum>r\<leftarrow>metric_rows (SJFSchedule title ps). sint (row_waiting r)) +
       (\<Sum>p\<leftarrow>ps. sint (BurstDuration p)) \<and>
     ((\<forall>p\<in>set ps. \<not> Completed p) \<longrightarrow>
        (\<exists>out. SJFPrioritySchedule title ps = Some out \<and>
           (\<Sum>l\<leftarrow>completion_lines out. sint (snd (snd (snd l)))) =
             (\<Sum>l\<leftarrow>completion_lines out. sint (fst (snd (snd l)))) +
             (\<Sum>p\<leftarrow>ps. sint (BurstDuration p))))"
proof -
  have fits: "total_time ps < 2 ^ 63" using assms(2) by (simp add: within_int64_def)
  have perm: "mset (sjf_sorted ps) = mset ps" by (simp add: sjf_sorted_def mset_sort_Slice)
  have fcfs: "(\<Sum>r\<leftarrow>metric_rows (FCFSSchedule title ps). sint (row_turnaround r)) =
       (\<Sum>r\<leftarrow>metric_rows (FCFSSchedule title ps). sint (row_waiting r)) +
       (\<Sum>p\<leftarrow>ps. sint (BurstDuration p))"
    using fcfs_loop_inv [OF assms(1) fits] by simp
  have "list_all valid_process (sjf_sorted ps)" "total_time (sjf_sorted ps) < 2 ^ 63"
    using assms(1) fits list_all_mset [OF perm] total_time_mset [OF perm] by simp_all
  then have "(\<Sum>r\<leftarrow>sjf_schedule (sjf_loop (sjf_sorted ps)). sint (row_turnaround r)) =
       (\<Sum>r\<leftarrow>sjf_schedule (sjf_loop (sjf_sorted ps)). sint (row_waiting r)) +
       (\<Sum>p\<leftarrow>sjf_sorted ps. sint (BurstDuration p))"
    using sjf_loop_inv [of "sjf_sorted ps"] by simp
  moreover have "(\<Sum>p\<leftarrow>sjf_sorted ps. sint (BurstDuration p)) = (\<Sum>p\<leftarrow>ps. sint (BurstDuration p))"
    using perm by (rule sum_list_mset_cong)
  ultimately have sjf: "(\<Sum>r\<leftarrow>metric_rows (SJFSchedule title ps). sint (row_turnaround r)) =
       (\<Sum>r\<leftarrow>metric_rows (SJFSchedule title ps). sint (row_waiting r)) +
       (\<Sum>p\<leftarrow>ps. sint (BurstDuration p))"
    by simp
  have pri: "\<exists>out. SJFPrioritySchedule title ps = Some out \<and>
           (\<Sum>l\<leftarrow>completion_lines out. sint (snd (snd (snd l)))) =
             (\<Sum>l\<leftarrow>completion_lines out. sint (fst (snd (snd l)))) +
             (\<Sum>p\<leftarrow>ps. sint (BurstDuration p))"
    if fresh: "\<forall>p\<in>set ps. \<not> Completed p"
  proof -
    obtain v where v: "pri_loop (pri_init title ps) = Some v"
        "(\<Sum>l\<leftarrow>completion_lines (pri_written v). sint (snd (snd (snd l)))) =
          (\<Sum>l\<leftarrow>completion_lines (pri_written v). sint (fst (snd (snd l)))) +
          (\<Sum>p\<leftarrow>ps. sint (BurstDuration p))"
      using pri_loop_sums [OF fresh assms(1) fits, of title] by blast
    then show ?thesis
      by (simp add: SJFPrioritySchedule_def Let_def completion_lines_append)
  qed
  show ?thesis using fcfs sjf pri by blast
qed

theorem turnaround_sum_witness:
  "list_all valid_process spec_example \<and> within_int64 spec_example \<and>
   list_all (\<lambda>p. \<not> Completed p) spec_example \<and>
   (\<Sum>r\<leftarrow>metric_rows (FCFSSchedule ''SJFP'' spec_example). sint (row_turnaround r)) = 19 \<and>
   (\<Sum>r\<leftarrow>metric_rows (FCFSSchedule ''SJFP'' spec_example). sint (row_waiting r)) = 10 \<and>
   (\<Sum>r\<leftarrow>metric_rows (SJFSchedule ''SJFP'' spec_example). sint (row_turnaround r)) = 17 \<and>
   (\<Sum>r\<leftarrow>metric_rows (SJFSchedule ''SJFP'' spec_example). sint (row_waiting r)) = 8 \<and>
   (\<Sum>l\<leftarrow>completion_lines (the (SJFPrioritySchedule ''SJFP'' spec_example)).
      sint (snd (snd (snd l)))) = 17 \<and>
   (\<Sum>l\<leftarrow>completion_lines (the (SJFPrioritySchedule ''SJFP'' spec_example)).
      sint (fst (snd (snd l)))) = 8 \<and>
   (\<Sum>p\<leftarrow>spec_example. sint (BurstDuration p)) = 9"
  using turnaround_sum [of spec_example "''SJFP''"] valid_spec_example
  by (simp add: SJFPrioritySchedule_example)
    (simp add: spec_example_def FCFSSchedule_def fcfs_loop_def fcfs_init_def fcfs_step_def
      SJFSchedule_def sjf_sorted_def sjf_loop_def sjf_init_def sjf_step_def eval_defs)

text \<open>
  Claim C3, as stated: for every non-empty input the timelines of \<open>FCFSSchedule\<close>,
  \<open>SJFSchedule\<close> and \<open>SJFPrioritySchedule\<close> have one segment per process, do not overlap and
  cover the sum of the burst durations. It fails: for A and B both arriving at 0,
  \<open>FCFSSchedule\<close> starts B at 0, inside the segment of A, and covers 13 for bursts summing to
  8; \<open>SJFPrioritySchedule\<close> writes no timeline at all; and for two bursts of
  \<open>2 ^ 63 - 1\<close> the clock of \<open>SJFSchedule\<close> wraps around and the timeline covers \<open>-2\<close>.
\<close>

theorem timeline_claim_counterexample:
  "list_all valid_process [proc ''A'' 0 5 1, proc ''B'' 0 3 2] \<and>
   timeline (FCFSSchedule ''FCFS'' [proc ''A'' 0 5 1, proc ''B'' 0 3 2]) =
     [\<lparr>PID = ''A'', Start = 0, Stop = 5\<rparr>, \<lparr>PID = ''B'', Start = 0, Stop = 8\<rparr>] \<and>
   \<not> disjoint_slices (timeline (FCFSSchedule ''FCFS'' [proc ''A'' 0 5 1, proc ''B'' 0 3 2])) \<and>
   covered (timeline (FCFSSchedule ''FCFS'' [proc ''A'' 0 5 1, proc ''B'' 0 3 2])) = 13 \<and>
   (\<Sum>p\<leftarrow>[proc ''A'' 0 5 1, proc ''B'' 0 3 2]. sint (BurstDuration p)) = 8 \<and>
   timeline (the (SJFPrioritySchedule ''SJFP'' spec_example)) = [] \<and>
   list_all valid_process
     [proc ''A'' 0 9223372036854775807 1, proc ''B'' 0 9223372036854775807 2] \<and>
   covered (timeline (SJFSchedule ''SJF''
     [proc ''A'' 0 9223372036854775807 1, proc ''B'' 0 9223372036854775807 2])) = - 2"
  by (simp add: SJFPrioritySchedule_example)
    (simp add: valid_process_def FCFSSchedule_def fcfs_loop_def fcfs_init_def fcfs_step_def
      SJFSchedule_def sjf_sorted_def sjf_loop_def sjf_init_def sjf_step_def covered_def eval_defs)

text \<open>
  Claim C3, amended: for every valid input whose arrival times and burst durations sum to less
  than \<open>2 ^ 63\<close>: the timeline of \<open>SJFSchedule\<close> has one segment per process (in the order of
  the sort by burst duration), is ordered by start, no two segments overlap, and it covers the
  sum of the burst durations; the timeline of \<open>FCFSSchedule\<close> has one segment per process in
  input order, and is ordered by start, without overlap and covering the sum of the burst
  durations when every process after the first arrives after time 0;
  \<open>SJFPrioritySchedule\<close> (with no \<open>Completed\<close> flag set on entry) writes no timeline, and one
  completion line per process.
\<close>

theorem timeline_segments:
  assumes "list_all valid_process ps" and "within_int64 ps"
  shows "map PID (timeline (FCFSSchedule title ps)) = map ProcessID ps \<and>
     (list_all (\<lambda>q. 0 <s ArrivalTime q) (tl ps) \<longrightarrow>
        disjoint_slices (timeline (FCFSSchedule title ps)) \<and>
        sorted_wrt (\<lambda>s u. Start s \<le>s Start u) (timeline (FCFSSchedule title ps)) \<and>
        covered (timeline (FCFSSchedule title ps)) = (\<Sum>p\<leftarrow>ps. sint (BurstDuration p))) \<and>
     map PID (timeline (SJFSchedule title ps)) = map ProcessID (sjf_sorted ps) \<and>
     mset (sjf_sorted ps) = mset ps \<and>
     disjoint_slices (timeline (SJFSchedule title ps)) \<and>
     sorted_wrt (\<lambda>s u. Start s \<le>s Start u) (timeline (SJFSchedule title ps)) \<and>
     covered (timeline (SJFSchedule title ps)) = (\<Sum>p\<leftarrow>ps. sint (BurstDuration p)) \<and>
     ((\<forall>p\<in>set ps. \<not> Completed p) \<longrightarrow>
        (\<exists>out. SJFPrioritySchedule title ps = Some out \<and> timeline out = [] \<and>
           mset (map fst (completion_lines out)) = mset (map ProcessID ps)))"
proof -
  have fits: "total_time ps < 2 ^ 63" using assms(2) by (simp add: within_int64_def)
  have perm: "mset (sjf_sorted ps) = mset ps" by (simp add: sjf_sorted_def mset_sort_Slice)
  have fcfs_ids: "map PID (timeline (FCFSSchedule title ps)) = map ProcessID ps"
    using fcfs_loop_pids [of ps] by simp
  have fcfs: "disjoint_slices (timeline (FCFSSchedule title ps)) \<and>
        sorted_wrt (\<lambda>s u. Start s \<le>s Start u) (timeline (FCFSSchedule title ps)) \<and>
        covered (timeline (FCFSSchedule title ps)) = (\<Sum>p\<leftarrow>ps. sint (BurstDuration p))"
    if reg: "list_all (\<lambda>q. 0 <s ArrivalTime q) (tl ps)"
    using fcfs_gantt_inv [OF assms(1) fits reg] by simp
  have sjf_ids: "map PID (timeline (SJFSchedule title ps)) = map ProcessID (sjf_sorted ps)"
    using sjf_loop_pids [of "sjf_sorted ps"] by simp
  have "list_all valid_process (sjf_sorted ps)" "total_time (sjf_sorted ps) < 2 ^ 63"
    using assms(1) fits list_all_mset [OF perm] total_time_mset [OF perm] by simp_all
  then have "disjoint_slices (sjf_gantt (sjf_loop (sjf_sorted ps))) \<and>
      sorted_wrt (\<lambda>s u. Start s \<le>s Start u) (sjf_gantt (sjf_loop (sjf_sorted ps))) \<and>
      covered (sjf_gantt (sjf_loop (sjf_sorted ps))) = (\<Sum>p\<leftarrow>sjf_sorted ps. sint (BurstDuration p))"
    using sjf_loop_inv [of "sjf_sorted ps"] by simp
  moreover have "(\<Sum>p\<leftarrow>sjf_sorted ps. sint (BurstDuration p)) = (\<Sum>p\<leftarrow>ps. sint (BurstDuration p))"
    using perm by (rule sum_list_mset_cong)
  ultimately have sjf: "disjoint_slices (timeline (SJFSchedule title ps)) \<and>
      sorted_wrt (\<lambda>s u. Start s \<le>s Start u) (timeline (SJFSchedule title ps)) \<and>
      covered (timeline (SJFSchedule title ps)) = (\<Sum>p\<leftarrow>ps. sint (BurstDuration p))"
    by simp
  have pri: "\<exists>out. SJFPrioritySchedule title ps = Some out \<and> timeline out = [] \<and>
           mset (map fst (completion_lines out)) = mset (map ProcessID ps)"
    if fresh: "\<forall>p\<in>set ps. \<not> Completed p"
  proof -
    obtain lines a b c where l: "SJFPrioritySchedule title ps =
          Some (Banner title # lines @ [AvgWaitLine a, AvgTurnaroundLine b, ThroughputLine c])"
        "list_all is_CompletedLine lines"
        "mset (map fst (completion_lines lines)) = mset (map ProcessID ps)"
      using pri_schedule_written [OF fresh, of title] by blast
    have "timeline (Banner title # lines @ [AvgWaitLine a, AvgTurnaroundLine b, ThroughputLine c]) = []"
      using l(2) by (simp add: timeline_append timeline_completed_lines)
    then show ?thesis using l by (simp add: completion_lines_append)
  qed
  show ?thesis using fcfs_ids fcfs sjf_ids perm sjf pri by blast
qed

theorem timeline_segments_witness:
  "list_all valid_process spec_example \<and> within_int64 spec_example \<and>
   list_all (\<lambda>q. 0 <s ArrivalTime q) (tl spec_example) \<and>
   list_all (\<lambda>p. \<not> Completed p) spec_example \<and>
   timeline (FCFSSchedule ''SJFP'' spec_example) =
     [\<lparr>PID = ''A'', Start = 0, Stop = 5\<rparr>, \<lparr>PID = ''B'', Start = 5, Stop = 8\<rparr>,
      \<lparr>PID = ''C'', Start = 8, Stop = 9\<rparr>] \<and>
   disjoint_slices (timeline (FCFSSchedule ''SJFP'' spec_example)) \<and>
   covered (timeline (FCFSSchedule ''SJFP'' spec_example)) = 9 \<and>
   timeline (SJFSchedule ''SJFP'' spec_example) =
     [\<lparr>PID = ''C'', Start = 2, Stop = 3\<rparr>, \<lparr>PID = ''B'', Start = 3, Stop = 6\<rparr>,
      \<lparr>PID = ''A'', Start = 6, Stop = 11\<rparr>] \<and>
   disjoint_slices (timeline (SJFSchedule ''SJFP'' spec_example)) \<and>
   covered (timeline (SJFSchedule ''SJFP'' spec_example)) = 9 \<and>
   timeline (the (SJFPrioritySchedule ''SJFP'' spec_example)) = []"
  using timeline_segments [of spec_example "''SJFP''"] valid_spec_example
  by (simp add: SJFPrioritySchedule_example)
    (simp add: spec_example_def FCFSSchedule_def fcfs_loop_def fcfs_init_def fcfs_step_def
      SJFSchedule_def sjf_sorted_def sjf_loop_def sjf_init_def sjf_step_def covered_def eval_defs)

end
